(* ===== verification/Prelude.thy ===== *)
theory Prelude
  imports Main "HOL-Library.Monad_Syntax"
begin

text \<open>
  Shared vocabulary of the development: the byte constants that \<open>src/src/csv.c\<close> writes
  as character literals, the two buffer-size macros, models of the C library string
  primitives the converter calls (\<open>strchr\<close>, \<open>strpbrk\<close>, \<open>strstr\<close>, \<open>strlen\<close> on a
  NUL-terminated buffer), and a model of a fixed byte array that is written with
  \<open>memcpy\<close> and single-byte stores and read by index.  A C string is modelled by the
  list of its bytes before the terminating NUL (\<open>cstring\<close>); a byte is Isabelle's
  8-bit \<open>char\<close>.  The lemmas here are the generic facts on lists and options that the
  component theories share; they are collected in \<open>libc_simps\<close> and \<open>buf_simps\<close>.
\<close>

named_theorems libc_simps "characteristic equations of the C library string primitives"
named_theorems buf_simps "rewrite rules for reads and writes of the scratch byte array"

type_synonym byte = char
type_synonym cstring = "char list"

abbreviation NUL :: byte where "NUL \<equiv> CHR 0x00"
abbreviation QUOTE :: byte where "QUOTE \<equiv> CHR 0x22"
abbreviation COMMA :: byte where "COMMA \<equiv> CHR 0x2C"
abbreviation CR :: byte where "CR \<equiv> CHR 0x0D"
abbreviation LF :: byte where "LF \<equiv> CHR 0x0A"
abbreviation SPACE :: byte where "SPACE \<equiv> CHR 0x20"
abbreviation TAB :: byte where "TAB \<equiv> CHR 0x09"

subsection \<open>Size macros\<close>

definition MAXLINELEN :: nat where
  "MAXLINELEN = 64 * 1024"

definition MAXFIELDLEN :: nat where
  "MAXFIELDLEN = MAXLINELEN * 2 + 2"

subsection \<open>C strings and the library primitives\<close>

text \<open>
  \<open>cstr\<close> reads a byte buffer as a C string: everything before the first NUL.
  \<open>find_first P s\<close> is the index of the first byte of \<open>s\<close> satisfying \<open>P\<close>, the common
  core of \<open>strchr\<close> and \<open>strpbrk\<close>.  \<open>strchr s NUL\<close> finds the terminator itself, at
  index \<open>length s\<close>, as the C function does.
\<close>

definition cstr :: "byte list \<Rightarrow> cstring" where
  "cstr xs = takeWhile (\<lambda>c. c \<noteq> NUL) xs"

definition find_first :: "(byte \<Rightarrow> bool) \<Rightarrow> cstring \<Rightarrow> nat option" where
  "find_first P s = (if list_ex P s then Some (length (takeWhile (\<lambda>c. \<not> P c) s)) else None)"

definition strchr :: "cstring \<Rightarrow> byte \<Rightarrow> nat option" where
  "strchr s c = (if c = NUL then Some (length s) else find_first (\<lambda>x. x = c) s)"

definition strpbrk :: "cstring \<Rightarrow> byte list \<Rightarrow> nat option" where
  "strpbrk s accept = find_first (\<lambda>x. x \<in> set accept) s"

fun strstr :: "cstring \<Rightarrow> cstring \<Rightarrow> nat option" where
  "strstr [] pat = (if pat = [] then Some 0 else None)"
| "strstr (x # xs) pat =
     (if take (length pat) (x # xs) = pat then Some 0 else map_option Suc (strstr xs pat))"

subsection \<open>A fixed byte array\<close>

text \<open>
  A static byte array is a function from index to byte.  \<open>buf_write b off xs\<close> is
  \<open>memcpy (b + off, xs, length xs)\<close> (a single-byte store when \<open>xs\<close> has one byte);
  \<open>buf_read b off n\<close> is the span of \<open>n\<close> bytes at \<open>off\<close> that
  \<open>write_string (b + off, n)\<close> hands to the sink.
\<close>

type_synonym bytearray = "nat \<Rightarrow> byte"

definition buf_write :: "bytearray \<Rightarrow> nat \<Rightarrow> byte list \<Rightarrow> bytearray" where
  "buf_write b off xs = (\<lambda>i. if off \<le> i \<and> i < off + length xs then xs ! (i - off) else b i)"

definition buf_read :: "bytearray \<Rightarrow> nat \<Rightarrow> nat \<Rightarrow> byte list" where
  "buf_read b off n = map b [off..<off + n]"

text \<open>
  A buffer that the code mutates through pointers is a byte list of fixed length.
  \<open>memmove l dst src n\<close> copies the \<open>n\<close> bytes at \<open>src\<close> to \<open>dst\<close> as if through a
  temporary buffer, so overlapping ranges are copied correctly; it is used with both
  ranges inside the buffer.
\<close>

definition memmove :: "byte list \<Rightarrow> nat \<Rightarrow> nat \<Rightarrow> nat \<Rightarrow> byte list" where
  "memmove l dst src n = take dst l @ take n (drop src l) @ drop (dst + n) l"

subsection \<open>Lemmas on the primitives\<close>


lemma find_first_None [libc_simps]: "find_first P s = None \<longleftrightarrow> (\<forall>x \<in> set s. \<not> P x)"
  by (simp add: find_first_def list_ex_iff)

lemma length_takeWhile_not_lt:
  "list_ex P s \<Longrightarrow> length (takeWhile (\<lambda>c. \<not> P c) s) < length s"
  by (induction s) auto

lemma find_first_Some_split:
  assumes "find_first P s = Some i"
  shows "i < length s" and "P (s ! i)" and "\<forall>x \<in> set (take i s). \<not> P x"
    and "take i s = takeWhile (\<lambda>c. \<not> P c) s" and "drop i s = dropWhile (\<lambda>c. \<not> P c) s"
proof -
  from assms have ex: "list_ex P s" and i: "i = length (takeWhile (\<lambda>c. \<not> P c) s)"
    by (auto simp: find_first_def split: if_splits)
  from ex have lt: "length (takeWhile (\<lambda>c. \<not> P c) s) < length s"
    by (rule length_takeWhile_not_lt)
  show "i < length s" using lt i by simp
  show tk: "take i s = takeWhile (\<lambda>c. \<not> P c) s"
    by (subst i) (rule takeWhile_eq_take [symmetric])
  show "drop i s = dropWhile (\<lambda>c. \<not> P c) s"
    by (subst i) (rule dropWhile_eq_drop [symmetric])
  show "P (s ! i)" using lt i nth_length_takeWhile [of "\<lambda>c. \<not> P c" s] by simp
  show "\<forall>x \<in> set (take i s). \<not> P x" using tk by (auto dest: set_takeWhileD)
qed

lemma find_first_Cons [libc_simps]:
  "find_first P (x # xs) = (if P x then Some 0 else map_option Suc (find_first P xs))"
  by (simp add: find_first_def)

lemma find_first_Nil [libc_simps]: "find_first P [] = None"
  by (simp add: find_first_def)

lemma find_first_append_Some:
  "\<forall>x \<in> set xs. \<not> P x \<Longrightarrow> P y \<Longrightarrow> find_first P (xs @ y # ys) = Some (length xs)"
  by (induction xs) (simp_all add: find_first_Cons)

lemma find_first_append_None:
  "\<forall>x \<in> set xs. \<not> P x \<Longrightarrow> find_first P (xs @ ys) = map_option ((+) (length xs)) (find_first P ys)"
proof (induction xs)
  case Nil
  then show ?case by (cases "find_first P ys") simp_all
next
  case (Cons x xs)
  then show ?case by (cases "find_first P ys") (simp_all add: find_first_Cons)
qed

lemma strchr_Some_split:
  assumes "c \<noteq> NUL" and "strchr s c = Some q"
  shows "s = take q s @ c # drop (Suc q) s" and "c \<notin> set (take q s)"
    and "q < length s" and "take (Suc q) s = take q s @ [c]"
proof -
  from assms have ff: "find_first (\<lambda>x. x = c) s = Some q" by (simp add: strchr_def)
  from find_first_Some_split(1) [OF ff] show "q < length s" .
  from find_first_Some_split(1,2) [OF ff] show "take (Suc q) s = take q s @ [c]"
    by (simp add: take_Suc_conv_app_nth)
  from find_first_Some_split(1,2) [OF ff] show "s = take q s @ c # drop (Suc q) s"
    by (metis id_take_nth_drop)
  from find_first_Some_split(3) [OF ff] show "c \<notin> set (take q s)" by blast
qed

lemma strchr_None_iff: "c \<noteq> NUL \<Longrightarrow> strchr s c = None \<longleftrightarrow> c \<notin> set s"
  by (auto simp: strchr_def find_first_None)

lemma strpbrk_None_iff: "strpbrk s accept = None \<longleftrightarrow> (\<forall>x \<in> set s. x \<notin> set accept)"
  by (simp add: strpbrk_def find_first_None)

lemma strpbrk_Some_split:
  assumes "strpbrk s accept = Some q"
  shows "\<forall>x \<in> set (take q s). x \<notin> set accept" and "q < length s" and "s ! q \<in> set accept"
proof -
  from assms have ff: "find_first (\<lambda>x. x \<in> set accept) s = Some q" by (simp add: strpbrk_def)
  show "\<forall>x \<in> set (take q s). x \<notin> set accept" by (rule find_first_Some_split(3) [OF ff])
  show "q < length s" by (rule find_first_Some_split(1) [OF ff])
  show "s ! q \<in> set accept" by (rule find_first_Some_split(2) [OF ff])
qed

lemma strstr_Some:
  "strstr s pat = Some k \<Longrightarrow> k \<le> length s \<and> take (length pat) (drop k s) = pat"
  by (induction s arbitrary: k) (auto split: if_splits)

lemma strstr_nonempty_lt:
  assumes "strstr s pat = Some k" and "pat \<noteq> []"
  shows "k + length pat \<le> length s"
proof -
  from strstr_Some [OF assms(1)] have "take (length pat) (drop k s) = pat" by simp
  then have "length pat \<le> length s - k" by (metis length_drop length_take min.absorb_iff2 nat_le_linear)
  moreover from strstr_Some [OF assms(1)] have "k \<le> length s" by simp
  ultimately show ?thesis by simp
qed

lemma strstr_Nil_pat [libc_simps]: "strstr s [] = Some 0"
  by (cases s) simp_all

lemma drop_length_append: "drop (length xs) (xs @ ys) = ys"
  by simp

lemma drop_append_le: "k \<le> length xs \<Longrightarrow> drop k (xs @ ys) = drop k xs @ ys"
  by simp

lemma update_sentinel:
  "k < length s \<Longrightarrow> (p @ s @ x # rest)[length p + k := y] = p @ take k s @ y # (drop (Suc k) s @ x # rest)"
  by (simp add: list_update_append upd_conv_take_nth_drop)

lemma update_segment_end:
  "(a @ b # m @ xs)[length a + length m := y] = a @ butlast (b # m) @ y # xs"
proof -
  have "(b # m @ xs)[length m := y] = butlast (b # m) @ y # xs"
    by (induction m arbitrary: b) simp_all
  then show ?thesis by (simp add: list_update_append)
qed

lemma cstr_append_nul [libc_simps]: "NUL \<notin> set s \<Longrightarrow> cstr (s @ NUL # rest) = s"
  by (induction s) (auto simp: cstr_def)

lemma cstr_id: "NUL \<notin> set xs \<Longrightarrow> cstr xs = xs"
  by (auto simp: cstr_def takeWhile_eq_all_conv)

lemma cstr_split: "\<exists>ys. xs @ NUL # rest = cstr xs @ NUL # ys"
proof (cases "NUL \<in> set xs")
  case True
  then have ne: "dropWhile (\<lambda>c. c \<noteq> NUL) xs \<noteq> []" by (simp add: dropWhile_eq_Nil_conv)
  then have "dropWhile (\<lambda>c. c \<noteq> NUL) xs \<noteq> [] \<and> hd (dropWhile (\<lambda>c. c \<noteq> NUL) xs) = NUL"
    using hd_dropWhile [OF ne] by simp
  then have "xs = cstr xs @ NUL # tl (dropWhile (\<lambda>c. c \<noteq> NUL) xs)"
    by (metis cstr_def list.collapse takeWhile_dropWhile_id)
  then show ?thesis by (metis append.assoc append_Cons)
next
  case False
  then show ?thesis by (simp add: cstr_id)
qed

lemma nul_notin_cstr [libc_simps]: "NUL \<notin> set (cstr xs)"
  by (auto simp: cstr_def dest: set_takeWhileD)

lemma cstr_at [libc_simps]:
  "NUL \<notin> set s \<Longrightarrow> cstr (drop (length p) (p @ s @ NUL # rest)) = s"
  by (simp add: cstr_append_nul)

lemma buf_write_apply [buf_simps]:
  "buf_write b off xs i = (if off \<le> i \<and> i < off + length xs then xs ! (i - off) else b i)"
  by (simp add: buf_write_def)

lemma buf_read_write_same [buf_simps]:
  "buf_read (buf_write b off xs) off (length xs) = xs"
  by (rule nth_equalityI) (simp_all add: buf_read_def buf_write_def)

lemma buf_read_write_append [buf_simps]:
  "buf_read (buf_write b (off + n) xs) off (n + length xs) = buf_read b off n @ xs"
  by (rule nth_equalityI) (auto simp: buf_read_def buf_write_def nth_append)

lemma buf_write_adjacent [buf_simps]:
  "buf_write (buf_write b off xs) (off + length xs) ys = buf_write b off (xs @ ys)"
  by (rule ext) (auto simp: buf_write_def nth_append)

lemma buf_write_Nil [buf_simps]: "buf_write b off [] = b"
  by (rule ext) (auto simp: buf_write_def)

lemma buf_write_Cons [buf_simps]:
  "buf_write b off (x # xs) = buf_write (b(off := x)) (Suc off) xs"
  by (rule ext) (auto simp: buf_write_def nth_Cons')

lemma buf_read_Suc [buf_simps]: "buf_read b off (Suc n) = b off # buf_read b (Suc off) n"
  by (simp add: buf_read_def upt_rec)

end
