(* ===== verification/CsvState.thy ===== *)
theory CsvState
  imports Prelude
begin

text \<open>
  The configuration and the process-wide state that \<open>src/src/csv.c\<close> shares between its
  functions, and the output sink it writes to.  The configuration is the four
  \<open>extern\<close> globals of lines 35--38 (set by the command-line front end, which is not part
  of \<open>src/\<close>); \<open>quote_style\<close> has the constructors of the \<open>QUOTE_STYLE\<close> enumeration
  declared in \<open>uncsv.h\<close>, whose cases the switch of \<open>convert_field\<close> names.  The state
  record holds the global \<open>start_of_line\<close> (line 39), the static scratch buffer of
  \<open>convert_field\<close> (line 102, initialised to a single double quote followed by zeros)
  and the sink: the bytes written so far and whether \<open>flush_output\<close> has been called.
  The sink functions \<open>write_character\<close>, \<open>write_string\<close> and \<open>flush_output\<close> are
  declared at lines 42--44 and defined outside \<open>src/\<close>; they are modelled as appending
  to the output and setting the flush flag.  \<open>usage\<close> (lines 47--53) is the synopsis it
  prints and the status it exits with.
\<close>

datatype quote_style = QS_MINIMUM | QS_ALL_VALUES | QS_EVERYTHING | QS_BORDER_SPACES | QS_ALL_SPACES

record config =
  delimiter :: byte
  quote_style :: quote_style
  r_replacement :: "cstring option"
  n_replacement :: "cstring option"

record csv_state =
  start_of_line :: bool
  field_buf :: bytearray
  out :: "byte list"
  flushed :: bool

definition initial_field_buf :: bytearray where
  "initial_field_buf = (\<lambda>i. if i = 0 then QUOTE else NUL)"

definition initial_state :: csv_state where
  "initial_state = \<lparr>start_of_line = True, field_buf = initial_field_buf, out = [], flushed = False\<rparr>"

definition write_character :: "byte \<Rightarrow> csv_state \<Rightarrow> csv_state" where
  "write_character ch st = st\<lparr>out := out st @ [ch]\<rparr>"

definition write_string :: "byte list \<Rightarrow> csv_state \<Rightarrow> csv_state" where
  "write_string s st = st\<lparr>out := out st @ s\<rparr>"

definition flush_output :: "csv_state \<Rightarrow> csv_state" where
  "flush_output st = st\<lparr>flushed := True\<rparr>"

text \<open>
  A configuration the converter can run with: the delimiter is not NUL (with a NUL
  delimiter \<open>strchr\<close> finds the terminator and the splitter reads past the end of the
  line) and each replacement pattern is a non-empty C string.
\<close>

definition rule_ok :: "cstring option \<Rightarrow> bool" where
  "rule_ok rule = (case rule of None \<Rightarrow> True | Some pat \<Rightarrow> pat \<noteq> [] \<and> NUL \<notin> set pat)"

definition valid_config :: "config \<Rightarrow> bool" where
  "valid_config cfg = (delimiter cfg \<noteq> NUL \<and> rule_ok (r_replacement cfg) \<and> rule_ok (n_replacement cfg))"

text \<open>
  \<open>usage\<close> (lines 47--53) prints the synopsis on standard output with \<open>printf\<close>, not
  through the sink, and ends the process with \<open>exit (100)\<close>; it never returns.  It is
  modelled by the bytes printed and the exit status.
\<close>

definition usage_synopsis :: cstring where
  "usage_synopsis = ''usage: csv [-VhsSqQ] [-d delimiter] [-r repl] [-n repl] [file ...]'' @ [LF]"

definition usage :: "cstring \<times> int" where
  "usage = (usage_synopsis, 100)"

lemmas sink_defs = write_character_def write_string_def flush_output_def

end
