(* ===== verification/ReplaceString.thy ===== *)
theory ReplaceString
  imports Prelude
begin

text \<open>
  Pattern substitution: \<open>replace_string_by_char\<close> of \<open>src/src/csv.c\<close> (lines 60--85).
  The C function scans a NUL-terminated buffer with \<open>strstr\<close>, overwrites the first byte
  of each occurrence with the replacement byte and closes the gap with \<open>memmove\<close>, then
  continues the search just after the replacement byte.  The loop is modelled as it is
  written (\<open>replace_at\<close> is the store and the \<open>memmove\<close>, \<open>replace_loop\<close> the
  \<open>for (;;)\<close>); since with an empty pattern the C loop never stops, it is a
  \<open>partial_function (option)\<close> whose \<open>None\<close> is non-termination.  \<open>replace_all\<close> and
  \<open>count_occ\<close> are the reference: a left-to-right, non-overlapping replacement.
  The theorems show that the loop computes the reference for every non-empty pattern,
  that it diverges for the empty one, and how the length shrinks.
\<close>

subsection \<open>The in-place loop\<close>

text \<open>\<open>*(c++) = repl; r = c + patlen - 1; memmove(c, r, strlen(r) + 1);\<close> at index \<open>i\<close>.\<close>

definition replace_at :: "cstring \<Rightarrow> nat \<Rightarrow> nat \<Rightarrow> byte \<Rightarrow> cstring" where
  "replace_at big i patlen repl =
     (let b1 = big[i := repl] in take (Suc i) b1 @ drop (i + patlen) b1)"

partial_function (option) replace_loop ::
  "cstring \<Rightarrow> byte \<Rightarrow> cstring \<Rightarrow> nat \<Rightarrow> nat \<Rightarrow> (cstring \<times> nat) option" where
  "replace_loop pattern repl big c count =
     (case strstr (drop c big) pattern of
        None \<Rightarrow> Some (big, count)
      | Some k \<Rightarrow>
          replace_loop pattern repl (replace_at big (c + k) (length pattern) repl)
            (Suc (c + k)) (Suc count))"

declare replace_loop.simps [code]

definition replace_string_by_char :: "cstring \<Rightarrow> cstring \<Rightarrow> byte \<Rightarrow> (cstring \<times> nat) option" where
  "replace_string_by_char big pattern repl = replace_loop pattern repl big 0 0"

subsection \<open>The reference replacement\<close>

fun replace_all :: "cstring \<Rightarrow> byte \<Rightarrow> cstring \<Rightarrow> cstring" where
  "replace_all pat repl [] = []"
| "replace_all pat repl (x # xs) =
     (if pat \<noteq> [] \<and> take (length pat) (x # xs) = pat
      then repl # replace_all pat repl (drop (length pat - 1) xs)
      else x # replace_all pat repl xs)"

fun count_occ :: "cstring \<Rightarrow> cstring \<Rightarrow> nat" where
  "count_occ pat [] = 0"
| "count_occ pat (x # xs) =
     (if pat \<noteq> [] \<and> take (length pat) (x # xs) = pat
      then Suc (count_occ pat (drop (length pat - 1) xs))
      else count_occ pat xs)"

subsection \<open>How one search step relates to the reference\<close>

lemma strstr_None_replace_all:
  "strstr s pat = None \<Longrightarrow> replace_all pat repl s = s \<and> count_occ pat s = 0"
  by (induction s) (auto split: if_splits)

lemma strstr_Some_replace_all:
  assumes "strstr s pat = Some k" and "pat \<noteq> []"
  shows "replace_all pat repl s = take k s @ repl # replace_all pat repl (drop (k + length pat) s)
         \<and> count_occ pat s = Suc (count_occ pat (drop (k + length pat) s))"
  using assms
proof (induction s arbitrary: k)
  case Nil
  then show ?case by (simp split: if_splits)
next
  case (Cons x xs)
  show ?case
  proof (cases "take (length pat) (x # xs) = pat")
    case True
    with Cons.prems have "k = 0" by simp
    with True Cons.prems(2) show ?thesis by (cases pat) simp_all
  next
    case False
    with Cons.prems obtain k' where "strstr xs pat = Some k'" and "k = Suc k'" by auto
    with Cons.IH Cons.prems(2) False show ?thesis by simp
  qed
qed

lemma replace_at_split:
  assumes "k + patlen \<le> length s" and "0 < patlen"
  shows "replace_at (p @ s) (length p + k) patlen repl = (p @ take k s @ [repl]) @ drop (k + patlen) s"
proof -
  from assms have k: "k < length s" by simp
  have "(p @ s)[length p + k := repl] = p @ s[k := repl]" by (simp add: list_update_append)
  moreover have "take (Suc k) (s[k := repl]) = take k s @ [repl]"
    using k by (simp add: take_Suc_conv_app_nth)
  moreover have "drop (k + patlen) (s[k := repl]) = drop (k + patlen) s"
    using assms(2) by simp
  ultimately show ?thesis by (simp add: replace_at_def)
qed

subsection \<open>Correctness of the loop\<close>

lemma replace_loop_correct:
  assumes "pat \<noteq> []"
  shows "replace_loop pat repl (p @ s) (length p) n =
           Some (p @ replace_all pat repl s, n + count_occ pat s)"
proof (induction "length s" arbitrary: p s n rule: less_induct)
  case less
  show ?case
  proof (cases "strstr s pat")
    case None
    then show ?thesis
      using strstr_None_replace_all [OF None] by (simp add: replace_loop.simps)
  next
    case (Some k)
    let ?s' = "drop (k + length pat) s"
    have le: "k + length pat \<le> length s" using strstr_nonempty_lt [OF Some assms] .
    have step: "replace_at (p @ s) (length p + k) (length pat) repl = (p @ take k s @ [repl]) @ ?s'"
      using le assms by (simp add: replace_at_split)
    have shorter: "length ?s' < length s"
      using le assms by (cases pat) auto
    have len: "Suc (length p + k) = length (p @ take k s @ [repl])" using le by simp
    have IH: "replace_loop pat repl ((p @ take k s @ [repl]) @ ?s') (length (p @ take k s @ [repl])) (Suc n)
               = Some ((p @ take k s @ [repl]) @ replace_all pat repl ?s', Suc n + count_occ pat ?s')"
      using less shorter by blast
    have "replace_loop pat repl (p @ s) (length p) n =
            replace_loop pat repl ((p @ take k s @ [repl]) @ ?s') (length (p @ take k s @ [repl])) (Suc n)"
      using le by (simp add: replace_loop.simps [of pat repl "p @ s"] Some step len [symmetric])
    also have "\<dots> = Some (p @ replace_all pat repl s, n + count_occ pat s)"
      using IH strstr_Some_replace_all [OF Some assms, of repl] by simp
    finally show ?thesis .
  qed
qed

lemma replace_loop_empty_pattern:
  "replace_loop [] repl big c n \<noteq> Some res"
proof
  assume ret: "replace_loop [] repl big c n = Some res"
  have "[] \<noteq> ([] :: cstring)"
  proof (rule replace_loop.raw_induct [where P = "\<lambda>pat _ _ _ _ _. pat \<noteq> []", OF _ ret])
    fix f :: "cstring \<Rightarrow> byte \<Rightarrow> cstring \<Rightarrow> nat \<Rightarrow> nat \<Rightarrow> (cstring \<times> nat) option"
      and pat repl big c n res
    assume IH: "\<And>pat repl big c n res. f pat repl big c n = Some res \<Longrightarrow> pat \<noteq> []"
      and body: "(case strstr (drop c big) pat of None \<Rightarrow> Some (big, n)
                 | Some k \<Rightarrow> f pat repl (replace_at big (c + k) (length pat) repl) (Suc (c + k)) (Suc n))
                 = Some res"
    show "pat \<noteq> []"
    proof
      assume "pat = []"
      with body have "f pat repl (replace_at big c 0 repl) (Suc c) (Suc n) = Some res"
        by (simp add: strstr_Nil_pat)
      then have "pat \<noteq> []" by (rule IH)
      with \<open>pat = []\<close> show False by simp
    qed
  qed
  then show False by simp
qed

lemma replace_string_by_char_Nil_pat: "replace_string_by_char big [] repl = None"
  using replace_loop_empty_pattern [of repl big 0 0]
  by (cases "replace_loop [] repl big 0 0") (auto simp: replace_string_by_char_def)

lemma replace_string_by_char_returns:
  "pat \<noteq> [] \<Longrightarrow> replace_string_by_char big pat repl = Some (replace_all pat repl big, count_occ pat big)"
  using replace_loop_correct [of pat repl "[]" big 0] by (simp add: replace_string_by_char_def)

subsection \<open>Properties of the substitution\<close>

lemma count_occ_le_length: "count_occ pat s \<le> length s"
  by (induction pat s rule: count_occ.induct) auto

lemma count_occ_zero_replace_all:
  "count_occ pat s = 0 \<Longrightarrow> replace_all pat repl s = s"
  by (induction pat repl s rule: replace_all.induct) (auto split: if_splits)

lemma set_replace_all: "set (replace_all pat repl s) \<subseteq> insert repl (set s)"
  by (induction pat repl s rule: replace_all.induct) (auto dest: in_set_dropD)

lemma take_eq_length_le: "take n xs = ys \<Longrightarrow> length ys = n \<Longrightarrow> n \<le> length xs"
  by auto

text \<open>C9: pattern substitution terminates exactly for non-empty patterns, and then it
  computes the left-to-right non-overlapping replacement and returns the number of
  replacements; with an empty pattern the C loop never returns.\<close>

theorem replace_string_by_char_spec:
  "replace_string_by_char big pattern repl =
     (if pattern = [] then None else Some (replace_all pattern repl big, count_occ pattern big))"
  by (simp add: replace_string_by_char_Nil_pat replace_string_by_char_returns)

text \<open>The length accounting of the reference replacement.\<close>

lemma replace_all_length:
  "length (replace_all pat repl s) + count_occ pat s * (length pat - 1) = length s"
proof (induction pat repl s rule: replace_all.induct)
  case (1 pat repl)
  then show ?case by simp
next
  case (2 pat repl x xs)
  show ?case
  proof (cases "pat \<noteq> [] \<and> take (length pat) (x # xs) = pat")
    case True
    then have "length pat \<le> Suc (length xs)" by (metis length_Cons take_eq_length_le)
    with True "2.IH"(1) show ?thesis by (simp add: algebra_simps)
  next
    case False
    with "2.IH"(2) show ?thesis by auto
  qed
qed

text \<open>C28: each replacement that \<open>replace_string_by_char\<close> performs in place shortens
  the string by the pattern length minus one: the string it leaves, which
  \<open>convert_field\<close> re-measures with \<open>strlen\<close>, is the original length less that amount
  per counted replacement.\<close>

theorem replace_string_by_char_length:
  assumes "pattern \<noteq> []"
  shows "\<exists>big' count. replace_string_by_char big pattern repl = Some (big', count) \<and>
           length big' + count * (length pattern - 1) = length big"
  using replace_string_by_char_returns [OF assms, of big repl] replace_all_length [of pattern repl big] by simp

theorem replace_string_by_char_length_witness:
  "[CHR 0x5C, CHR ''n''] \<noteq> [] \<and>
   (\<exists>big' count. replace_string_by_char [CHR ''a'', CHR 0x5C, CHR ''n'', CHR ''b''] [CHR 0x5C, CHR ''n''] LF = Some (big', count) \<and>
      length big' + count * (length [CHR 0x5C, CHR ''n''] - 1) = length [CHR ''a'', CHR 0x5C, CHR ''n'', CHR ''b''])"
  using replace_string_by_char_length [of "[CHR 0x5C, CHR ''n'']" "[CHR ''a'', CHR 0x5C, CHR ''n'', CHR ''b'']" LF]
  by simp

end
