(* ===== verification/FieldEncoder.thy ===== *)
theory FieldEncoder
  imports CsvState ReplaceString
begin

text \<open>
  The field encoder: \<open>convert_field\<close> of \<open>src/src/csv.c\<close> (lines 99--188), one
  definition per step of the code, composed as the code composes them.  The static
  scratch buffer \<open>buf\<close> is the state's \<open>field_buf\<close>; the field is written into it
  from offset 1 and the whole span is handed to \<open>write_string\<close> from offset 0 (quoted,
  using the pre-seeded quote) or 1.  The second part states what the encoder promises
  without the buffer (\<open>escape_quotes\<close>, \<open>needs_quotes\<close>, \<open>field_output\<close>,
  \<open>next_stale\<close>) and the byte-at-a-time loop \<open>escape_ref\<close> the code's comment compares
  with, proves the escaping loop equal to both and derives
  \<open>convert_field_result\<close>, from which the field-level claims follow.
\<close>

subsection \<open>The code\<close>

text \<open>Lines 114--120 and 122--128: one optional replacement rule.  The state of the
  field is the C string \<open>c\<close>, the variable \<open>len\<close> and the flag \<open>quoted\<close>.\<close>

definition apply_replacement ::
  "cstring option \<Rightarrow> byte \<Rightarrow> cstring \<times> nat \<times> bool \<Rightarrow> (cstring \<times> nat \<times> bool) option" where
  "apply_replacement rule repl fld =
     (case fld of (c, len, quoted) \<Rightarrow>
       (case rule of
          None \<Rightarrow> Some (c, len, quoted)
        | Some pat \<Rightarrow>
            (case replace_string_by_char c pat repl of
               None \<Rightarrow> None
             | Some (c', count) \<Rightarrow>
                 Some (if 0 < count then (c', length c', True) else (c', len, quoted)))))"

text \<open>Lines 130--150: copy the field into the scratch buffer from \<open>cur\<close>, doubling every
  double quote; \<open>strchr\<close> finds the next quote and \<open>memcpy\<close> copies up to and including
  it.  The result is the remaining tail \<open>c\<close>, its length \<open>len\<close>, the buffer, the
  write position \<open>cur\<close> and \<open>quoted\<close>.\<close>

function escape_loop ::
  "cstring \<Rightarrow> nat \<Rightarrow> bytearray \<Rightarrow> nat \<Rightarrow> bool \<Rightarrow> cstring \<times> nat \<times> bytearray \<times> nat \<times> bool" where
  "escape_loop c len buf cur quoted =
     (case strchr c QUOTE of
        None \<Rightarrow> (c, len, buf_write buf cur (take len c), cur + len, quoted)
      | Some q \<Rightarrow>
          (let l = Suc q;
               buf1 = buf_write buf cur (take l c);
               buf2 = buf_write buf1 (cur + l) [QUOTE]
           in escape_loop (drop l c) (len - l) buf2 (Suc (cur + l)) True))"
  by pat_completeness auto
termination
  by (relation "measure (\<lambda>(c, _). length c)")
     (auto simp: strchr_def dest: find_first_Some_split(1))

declare escape_loop.simps [simp del]

text \<open>Lines 152--175: the switch on the quoting style.  It reads the scratch buffer at
  indices 1 and \<open>len\<close> and scans the tail \<open>c\<close> left by the escaping loop.\<close>

fun quote_policy :: "quote_style \<Rightarrow> bytearray \<Rightarrow> cstring \<Rightarrow> nat \<Rightarrow> bool \<Rightarrow> bool" where
  "quote_policy QS_EVERYTHING buf c len quoted = True"
| "quote_policy QS_ALL_VALUES buf c len quoted = (if 0 < len then True else quoted)"
| "quote_policy QS_BORDER_SPACES buf c len quoted =
     (if buf 1 = SPACE \<or> buf 1 = TAB \<or> buf len = SPACE \<or> buf len = TAB then True else quoted)"
| "quote_policy QS_ALL_SPACES buf c len quoted =
     (if strpbrk c [SPACE, TAB] \<noteq> None then True else quoted)"
| "quote_policy QS_MINIMUM buf c len quoted = quoted"

text \<open>Lines 177--179: a field still unquoted is quoted if it contains a comma, the
  output separator.  With the switch before it, this is the quoting decision.\<close>

definition decide_quoting :: "quote_style \<Rightarrow> bytearray \<Rightarrow> cstring \<Rightarrow> nat \<Rightarrow> bool \<Rightarrow> bool" where
  "decide_quoting style buf c len quoted =
     (let quoted = quote_policy style buf c len quoted
      in if \<not> quoted \<and> strchr c COMMA \<noteq> None then True else quoted)"

text \<open>Lines 181--187: a quoted field gets its closing quote and is written from offset 0
  of the buffer (the pre-seeded opening quote), an unquoted one from offset 1; then
  \<open>start_of_line\<close> is cleared.\<close>

definition finish_field :: "bytearray \<Rightarrow> nat \<Rightarrow> bool \<Rightarrow> csv_state \<Rightarrow> csv_state" where
  "finish_field buf cur quoted st =
     (let buf' = (if quoted then buf_write buf cur [QUOTE] else buf);
          cur' = (if quoted then Suc cur else cur);
          offset = (if quoted then 0 else 1);
          st = write_string (buf_read buf' offset (cur' - offset)) st
      in st\<lparr>field_buf := buf', start_of_line := False\<rparr>)"

text \<open>The whole function, lines 99--188: the separator, the two replacement rules, the
  escaping loop, the decision and the write.\<close>

definition convert_field :: "config \<Rightarrow> cstring \<Rightarrow> nat \<Rightarrow> csv_state \<Rightarrow> csv_state option" where
  "convert_field cfg c len st =
     (let st = (if \<not> start_of_line st then write_character COMMA st else st)
      in do {
        (c, len, quoted) \<leftarrow> apply_replacement (r_replacement cfg) CR (c, len, False);
        (c, len, quoted) \<leftarrow> apply_replacement (n_replacement cfg) LF (c, len, quoted);
        (case escape_loop c len (field_buf st) 1 quoted of
          (c, len, buf, cur, quoted) \<Rightarrow>
            Some (finish_field buf cur (decide_quoting (quote_style cfg) buf c len quoted) st))
      })"

subsection \<open>The specification of an encoded field\<close>

text \<open>
  What the encoder promises, stated without the buffer: the quote-doubling of the
  field, the part after its last quote (what the loop leaves in \<open>c\<close>), the effect of a
  replacement rule, and when the field is quoted.  \<open>stale\<close> is byte 1 of the scratch
  buffer before the call: the border-space test reads it when the field is empty.
\<close>

definition escape_quotes :: "cstring \<Rightarrow> byte list" where
  "escape_quotes s = concat (map (\<lambda>x. if x = QUOTE then [QUOTE, QUOTE] else [x]) s)"

text \<open>
  \<open>escape_ref\<close> is the byte-at-a-time loop that the comment above \<open>convert_field\<close> compares
  the \<open>memcpy\<close>/\<open>strchr\<close> loop with: each byte is stored, a quote is stored twice, and
  the field is marked quoted on its first quote.
\<close>

fun escape_ref :: "byte list \<Rightarrow> bytearray \<Rightarrow> nat \<Rightarrow> bool \<Rightarrow> bytearray \<times> nat \<times> bool" where
  "escape_ref [] buf cur quoted = (buf, cur, quoted)"
| "escape_ref (x # xs) buf cur quoted =
     (if x = QUOTE then escape_ref xs (buf(cur := QUOTE, Suc cur := QUOTE)) (cur + 2) True
      else escape_ref xs (buf(cur := x)) (Suc cur) quoted)"

definition quote_tail :: "cstring \<Rightarrow> cstring" where
  "quote_tail s = rev (takeWhile (\<lambda>x. x \<noteq> QUOTE) (rev s))"

definition replace_rule :: "cstring option \<Rightarrow> byte \<Rightarrow> cstring \<Rightarrow> cstring \<times> bool" where
  "replace_rule rule repl s =
     (case rule of None \<Rightarrow> (s, False) | Some pat \<Rightarrow> (replace_all pat repl s, 0 < count_occ pat s))"

definition field_content :: "config \<Rightarrow> cstring \<Rightarrow> cstring \<times> bool" where
  "field_content cfg c =
     (case replace_rule (r_replacement cfg) CR c of (c1, r1) \<Rightarrow>
       (case replace_rule (n_replacement cfg) LF c1 of (c2, r2) \<Rightarrow> (c2, r1 \<or> r2)))"

fun policy_quotes :: "quote_style \<Rightarrow> byte \<Rightarrow> cstring \<Rightarrow> bool" where
  "policy_quotes QS_EVERYTHING stale f = True"
| "policy_quotes QS_ALL_VALUES stale f = (f \<noteq> [])"
| "policy_quotes QS_BORDER_SPACES stale f =
     (if f = [] then stale = SPACE \<or> stale = TAB
      else hd f = SPACE \<or> hd f = TAB \<or> last f = SPACE \<or> last f = TAB)"
| "policy_quotes QS_ALL_SPACES stale f = (SPACE \<in> set f \<or> TAB \<in> set f)"
| "policy_quotes QS_MINIMUM stale f = False"

definition needs_quotes :: "quote_style \<Rightarrow> byte \<Rightarrow> bool \<Rightarrow> cstring \<Rightarrow> bool" where
  "needs_quotes style stale replaced f =
     (replaced \<or> QUOTE \<in> set f \<or> COMMA \<in> set f \<or> policy_quotes style stale f)"

definition field_output :: "config \<Rightarrow> byte \<Rightarrow> cstring \<Rightarrow> byte list" where
  "field_output cfg stale c =
     (case field_content cfg c of (f, replaced) \<Rightarrow>
        if needs_quotes (quote_style cfg) stale replaced f
        then QUOTE # escape_quotes f @ [QUOTE] else escape_quotes f)"

definition next_stale :: "config \<Rightarrow> byte \<Rightarrow> cstring \<Rightarrow> byte" where
  "next_stale cfg stale c =
     (case field_content cfg c of (f, replaced) \<Rightarrow>
        if f \<noteq> [] then hd f
        else if needs_quotes (quote_style cfg) stale replaced f then QUOTE else stale)"

text \<open>The scratch buffer after the call: the quote-doubled field from offset 1, and the
  closing quote after it when the field is quoted.\<close>

definition field_buf_after :: "config \<Rightarrow> bytearray \<Rightarrow> cstring \<Rightarrow> bytearray" where
  "field_buf_after cfg buf c =
     (case field_content cfg c of (f, replaced) \<Rightarrow>
        if needs_quotes (quote_style cfg) (buf 1) replaced f
        then buf_write (buf_write buf 1 (escape_quotes f)) (1 + length (escape_quotes f)) [QUOTE]
        else buf_write buf 1 (escape_quotes f))"

subsection \<open>The escaping loop computes the quote-doubling\<close>

lemma escape_quotes_Nil [simp]: "escape_quotes [] = []"
  by (simp add: escape_quotes_def)

lemma escape_quotes_append [simp]: "escape_quotes (xs @ ys) = escape_quotes xs @ escape_quotes ys"
  by (simp add: escape_quotes_def)

lemma escape_quotes_Cons:
  "escape_quotes (x # xs) = (if x = QUOTE then [QUOTE, QUOTE] else [x]) @ escape_quotes xs"
  by (simp add: escape_quotes_def)

lemma escape_quotes_no_quote: "QUOTE \<notin> set s \<Longrightarrow> escape_quotes s = s"
  by (induction s) (auto simp: escape_quotes_Cons)

lemma takeWhile_all_id: "\<forall>x \<in> set xs. P x \<Longrightarrow> takeWhile P xs = xs"
  by (simp add: takeWhile_eq_all_conv)

lemma quote_tail_no_quote:
  assumes "QUOTE \<notin> set s"
  shows "quote_tail s = s"
proof -
  have "\<forall>x \<in> set (rev s). x \<noteq> QUOTE" using assms by auto
  then show ?thesis by (simp add: quote_tail_def takeWhile_all_id)
qed

lemma quote_tail_after_quote: "quote_tail (xs @ QUOTE # ys) = quote_tail ys"
  by (auto simp: quote_tail_def takeWhile_append takeWhile_all_id)

lemma escape_ref_spec:
  "escape_ref c buf cur quoted =
     (buf_write buf cur (escape_quotes c), cur + length (escape_quotes c), quoted \<or> QUOTE \<in> set c)"
proof (induction c arbitrary: buf cur quoted)
  case Nil
  then show ?case by (simp add: escape_quotes_def buf_write_Nil)
next
  case (Cons x c)
  then show ?case
    by (simp add: escape_quotes_Cons buf_write_Cons numeral_2_eq_2 fun_upd_def)
qed

lemma escape_loop_correct:
  "len = length c \<Longrightarrow>
   escape_loop c len buf cur quoted =
     (quote_tail c, length (quote_tail c), buf_write buf cur (escape_quotes c),
      cur + length (escape_quotes c), quoted \<or> QUOTE \<in> set c)"
proof (induction c len buf cur quoted rule: escape_loop.induct)
  case (1 c len buf cur quoted)
  show ?case
  proof (cases "strchr c QUOTE")
    case None
    then have "QUOTE \<notin> set c" by (simp add: strchr_None_iff)
    with None "1.prems" show ?thesis
      by (simp add: escape_loop.simps [of c] escape_quotes_no_quote quote_tail_no_quote)
  next
    case (Some q)
    let ?pre = "take q c" and ?rest = "drop (Suc q) c"
    have c: "c = ?pre @ QUOTE # ?rest" and nq: "QUOTE \<notin> set ?pre"
      and tk: "take (Suc q) c = ?pre @ [QUOTE]"
      using strchr_Some_split [OF _ Some] by simp_all
    have lq: "length ?pre = q"
      using strchr_Some_split(3) [OF _ Some] by simp
    have buf2: "buf_write (buf_write buf cur (take (Suc q) c)) (cur + Suc q) [QUOTE]
                = buf_write buf cur (?pre @ [QUOTE, QUOTE])"
      using buf_write_adjacent [of buf cur "take (Suc q) c" "[QUOTE]"] tk lq by simp
    have IH: "escape_loop ?rest (len - Suc q) (buf_write buf cur (?pre @ [QUOTE, QUOTE])) (Suc (cur + Suc q)) True =
      (quote_tail ?rest, length (quote_tail ?rest),
       buf_write (buf_write buf cur (?pre @ [QUOTE, QUOTE])) (Suc (cur + Suc q)) (escape_quotes ?rest),
       Suc (cur + Suc q) + length (escape_quotes ?rest), True)"
      using "1.IH" [OF Some refl] "1.prems" buf2 by (simp add: Let_def)
    have adj: "buf_write (buf_write buf cur (?pre @ [QUOTE, QUOTE])) (Suc (cur + Suc q)) (escape_quotes ?rest)
               = buf_write buf cur (escape_quotes c)"
      using buf_write_adjacent [of buf cur "?pre @ [QUOTE, QUOTE]" "escape_quotes ?rest"] lq nq
      by (subst (3) c) (simp add: escape_quotes_no_quote escape_quotes_Cons)
    have "escape_loop c len buf cur quoted =
            escape_loop ?rest (len - Suc q) (buf_write buf cur (?pre @ [QUOTE, QUOTE])) (Suc (cur + Suc q)) True"
      using Some buf2 by (simp add: escape_loop.simps [of c] Let_def)
    also have "\<dots> = (quote_tail c, length (quote_tail c), buf_write buf cur (escape_quotes c),
                     cur + length (escape_quotes c), quoted \<or> QUOTE \<in> set c)"
      using IH adj lq nq
      by (subst (1 2 4 5 6) c) (simp add: quote_tail_after_quote escape_quotes_no_quote escape_quotes_Cons)
    finally show ?thesis .
  qed
qed

subsection \<open>The replacement rules and the quoting decision\<close>

lemma apply_replacement_spec:
  assumes "rule_ok rule"
  shows "apply_replacement rule repl (c, length c, q) =
           Some (fst (replace_rule rule repl c), length (fst (replace_rule rule repl c)),
                 q \<or> snd (replace_rule rule repl c))"
proof (cases rule)
  case None
  then show ?thesis by (simp add: apply_replacement_def replace_rule_def)
next
  case (Some pat)
  with assms have "pat \<noteq> []" by (simp add: rule_ok_def)
  with Some show ?thesis
    by (auto simp: apply_replacement_def replace_rule_def replace_string_by_char_spec
        count_occ_zero_replace_all)
qed

text \<open>An empty pattern is the one rule that makes the encoder loop: every other rule
  returns, and a field is not converted while either rule is empty.\<close>

lemma apply_replacement_Nil_pat: "apply_replacement (Some []) repl fld = None"
  by (simp add: apply_replacement_def replace_string_by_char_Nil_pat split: prod.splits)

lemma apply_replacement_returns:
  "rule \<noteq> Some [] \<Longrightarrow> \<exists>fld'. apply_replacement rule repl fld = Some fld'"
  using replace_string_by_char_returns
  by (cases rule; cases fld) (auto simp: apply_replacement_def)

lemma convert_field_empty_rule:
  assumes "r_replacement cfg = Some [] \<or> n_replacement cfg = Some []"
  shows "convert_field cfg c len st = None"
proof (cases "r_replacement cfg = Some []")
  case True
  then show ?thesis by (simp add: convert_field_def Let_def apply_replacement_Nil_pat)
next
  case False
  then obtain fld where "apply_replacement (r_replacement cfg) CR (c, len, False) = Some fld"
    using apply_replacement_returns by blast
  then show ?thesis
    using False assms by (simp add: convert_field_def Let_def apply_replacement_Nil_pat split: prod.splits)
qed

lemma quote_policy_True: "quote_policy style buf c len True"
  by (cases style) simp_all

lemma quote_policy_spec:
  assumes b0: "buf 0 = QUOTE"
  shows "quote_policy style (buf_write buf 1 f) f (length f) q = (q \<or> policy_quotes style (buf 1) f)"
proof (cases style)
  case QS_BORDER_SPACES
  show ?thesis
  proof (cases f)
    case Nil
    with QS_BORDER_SPACES b0 show ?thesis by (simp add: buf_write_apply)
  next
    case (Cons x xs)
    have "last f = f ! (length f - 1)" using Cons by (simp add: last_conv_nth)
    with QS_BORDER_SPACES Cons show ?thesis by (auto simp: buf_write_apply)
  qed
next
  case QS_ALL_SPACES
  then show ?thesis by (auto simp: strpbrk_None_iff)
qed simp_all

text \<open>Lines 130--177 together: after the escaping loop, the policy switch and the comma
  test, the field is quoted exactly when \<open>needs_quotes\<close> says so.\<close>

lemma field_decision:
  assumes b0: "buf 0 = QUOTE"
  shows "decide_quoting style (buf_write buf 1 (escape_quotes f)) (quote_tail f)
           (length (quote_tail f)) (replaced \<or> QUOTE \<in> set f)
         = needs_quotes style (buf 1) replaced f"
proof (cases "QUOTE \<in> set f")
  case True
  then show ?thesis by (simp add: decide_quoting_def Let_def needs_quotes_def quote_policy_True)
next
  case False
  then show ?thesis
    using quote_policy_spec [where buf = buf and style = style and f = f and q = replaced, OF b0]
    by (auto simp: decide_quoting_def needs_quotes_def quote_tail_no_quote escape_quotes_no_quote
        strchr_None_iff)
qed

lemma finish_field_spec:
  assumes b0: "buf 0 = QUOTE"
  shows "finish_field (buf_write buf 1 e) (1 + length e) quoted st =
           st\<lparr>out := out st @ (if quoted then QUOTE # e @ [QUOTE] else e),
              field_buf := (if quoted then buf_write (buf_write buf 1 e) (1 + length e) [QUOTE]
                            else buf_write buf 1 e),
              start_of_line := False\<rparr>"
proof (cases quoted)
  case True
  have "buf_read (buf_write (buf_write buf 1 e) (1 + length e) [QUOTE]) 1 (length e + length [QUOTE])
          = buf_read (buf_write buf 1 e) 1 (length e) @ [QUOTE]"
    by (rule buf_read_write_append)
  then have "buf_read (buf_write (buf_write buf 1 e) (1 + length e) [QUOTE]) 0 (Suc (Suc (length e)))
               = QUOTE # e @ [QUOTE]"
    using b0 by (simp add: buf_read_Suc buf_write_apply buf_read_write_same)
  with True show ?thesis by (simp add: finish_field_def write_string_def)
next
  case False
  then show ?thesis
    by (simp add: finish_field_def write_string_def buf_read_write_same)
qed

lemma field_content_steps:
  assumes "valid_config cfg" and "field_content cfg c = (f, replaced)"
  shows "\<exists>c1 r1. apply_replacement (r_replacement cfg) CR (c, length c, False) = Some (c1, length c1, r1)
           \<and> apply_replacement (n_replacement cfg) LF (c1, length c1, r1) = Some (f, length f, replaced)"
proof -
  obtain c1 r1 where rr1: "replace_rule (r_replacement cfg) CR c = (c1, r1)"
    by (cases "replace_rule (r_replacement cfg) CR c")
  obtain c2 r2 where rr2: "replace_rule (n_replacement cfg) LF c1 = (c2, r2)"
    by (cases "replace_rule (n_replacement cfg) LF c1")
  from assms rr1 rr2 have f: "f = c2" "replaced = (r1 \<or> r2)"
    by (simp_all add: field_content_def)
  from assms(1) have ok1: "rule_ok (r_replacement cfg)" and ok2: "rule_ok (n_replacement cfg)"
    by (simp_all add: valid_config_def)
  have a1: "apply_replacement (r_replacement cfg) CR (c, length c, False) = Some (c1, length c1, r1)"
    using apply_replacement_spec [OF ok1, of CR c False] rr1 by simp
  have a2: "apply_replacement (n_replacement cfg) LF (c1, length c1, r1) = Some (f, length f, replaced)"
    using apply_replacement_spec [OF ok2, of LF c1 r1] rr2 f by simp
  from a1 a2 show ?thesis by blast
qed

lemma convert_field_result:
  assumes cfg: "valid_config cfg" and b0: "field_buf st 0 = QUOTE"
  shows "\<exists>st'. convert_field cfg c (length c) st = Some st' \<and>
           out st' = out st @ (if start_of_line st then [] else [COMMA]) @ field_output cfg (field_buf st 1) c \<and>
           \<not> start_of_line st' \<and> flushed st' = flushed st \<and>
           field_buf st' 0 = QUOTE \<and> field_buf st' 1 = next_stale cfg (field_buf st 1) c \<and>
           field_buf st' = field_buf_after cfg (field_buf st) c"
proof -
  obtain f replaced where fc: "field_content cfg c = (f, replaced)"
    by (cases "field_content cfg c")
  define st1 where "st1 = (if \<not> start_of_line st then write_character COMMA st else st)"
  define B where "B = field_buf st"
  define e where "e = escape_quotes f"
  define qd where "qd = needs_quotes (quote_style cfg) (B 1) replaced f"
  have fb1: "field_buf st1 = B" by (simp add: st1_def B_def write_character_def)
  have b0': "B 0 = QUOTE" using b0 by (simp add: B_def)
  have esc: "escape_loop f (length f) (field_buf st1) 1 replaced =
               (quote_tail f, length (quote_tail f), buf_write B 1 e, 1 + length e, replaced \<or> QUOTE \<in> set f)"
    by (simp add: escape_loop_correct fb1 e_def)
  have dec: "decide_quoting (quote_style cfg) (buf_write B 1 e) (quote_tail f) (length (quote_tail f))
               (replaced \<or> QUOTE \<in> set f) = qd"
    unfolding e_def qd_def by (rule field_decision [where buf = B, OF b0'])
  obtain c1 r1 where a1: "apply_replacement (r_replacement cfg) CR (c, length c, False) = Some (c1, length c1, r1)"
    and a2: "apply_replacement (n_replacement cfg) LF (c1, length c1, r1) = Some (f, length f, replaced)"
    using field_content_steps [OF cfg fc] by blast
  have "convert_field cfg c (length c) st = Some (finish_field (buf_write B 1 e) (1 + length e) qd st1)"
    using esc dec by (simp add: convert_field_def st1_def [symmetric] Let_def a1 a2)
  moreover have "finish_field (buf_write B 1 e) (1 + length e) qd st1 =
           st1\<lparr>out := out st1 @ (if qd then QUOTE # e @ [QUOTE] else e),
              field_buf := (if qd then buf_write (buf_write B 1 e) (1 + length e) [QUOTE]
                            else buf_write B 1 e),
              start_of_line := False\<rparr>"
    by (rule finish_field_spec [where buf = B, OF b0'])
  moreover have "out st1 = out st @ (if start_of_line st then [] else [COMMA])"
    by (simp add: st1_def write_character_def)
  moreover have "field_output cfg (B 1) c = (if qd then QUOTE # e @ [QUOTE] else e)"
    by (simp add: field_output_def fc qd_def e_def)
  moreover have "next_stale cfg (B 1) c =
      (if qd then buf_write (buf_write B 1 e) (1 + length e) [QUOTE] else buf_write B 1 e) 1"
    by (cases f) (auto simp: next_stale_def fc qd_def e_def buf_write_apply escape_quotes_Cons)
  moreover have "flushed st1 = flushed st" by (simp add: st1_def write_character_def)
  moreover have "field_buf_after cfg B c =
      (if qd then buf_write (buf_write B 1 e) (1 + length e) [QUOTE] else buf_write B 1 e)"
    by (simp add: field_buf_after_def fc qd_def e_def)
  ultimately show ?thesis using b0' by (simp add: B_def buf_write_apply)
qed

text \<open>C3: for a valid configuration, converting a field always returns; it appends the
  separator when the field is not first on its line, then the field after the
  replacement rules, quote-doubled and enclosed in double quotes exactly when
  \<open>needs_quotes\<close> holds, and it clears \<open>start_of_line\<close>.\<close>

theorem convert_field_spec:
  assumes "valid_config cfg" and "field_buf st 0 = QUOTE"
  shows "\<exists>st'. convert_field cfg c (length c) st = Some st' \<and>
           out st' = out st @ (if start_of_line st then [] else [COMMA]) @ field_output cfg (field_buf st 1) c \<and>
           \<not> start_of_line st'"
  using convert_field_result [OF assms] by blast

subsection \<open>Consequences for single fields\<close>

lemma count_escape_quotes: "count_list (escape_quotes f) QUOTE = 2 * count_list f QUOTE"
  by (induction f) (simp_all add: escape_quotes_Cons)

lemma length_escape_quotes: "length (escape_quotes f) \<le> 2 * length f"
  by (induction f) (simp_all add: escape_quotes_Cons)

lemma length_replace_rule: "length (fst (replace_rule rule repl s)) \<le> length s"
  using replace_all_length [of _ repl s] by (auto simp: replace_rule_def split: option.splits)
     (metis le_add1)

lemma length_field_content: "length (fst (field_content cfg c)) \<le> length c"
proof -
  obtain c1 r1 where rr1: "replace_rule (r_replacement cfg) CR c = (c1, r1)"
    by (cases "replace_rule (r_replacement cfg) CR c")
  obtain c2 r2 where rr2: "replace_rule (n_replacement cfg) LF c1 = (c2, r2)"
    by (cases "replace_rule (n_replacement cfg) LF c1")
  have "length c1 \<le> length c" using length_replace_rule [of "r_replacement cfg" CR c] rr1 by simp
  moreover have "length c2 \<le> length c1" using length_replace_rule [of "n_replacement cfg" LF c1] rr2 by simp
  ultimately show ?thesis by (simp add: field_content_def rr1 rr2)
qed

lemma field_content_no_trigger:
  assumes "\<forall>p. r_replacement cfg = Some p \<longrightarrow> count_occ p c = 0"
    and "\<forall>p. n_replacement cfg = Some p \<longrightarrow> count_occ p c = 0"
  shows "field_content cfg c = (c, False)"
  using assms by (auto simp: field_content_def replace_rule_def count_occ_zero_replace_all split: option.splits)

text \<open>Only the border-space policy reads the stale scratch byte.\<close>

lemma field_output_stale:
  "quote_style cfg \<noteq> QS_BORDER_SPACES \<Longrightarrow> field_output cfg s c = field_output cfg s' c"
  by (cases "quote_style cfg") (simp_all add: field_output_def needs_quotes_def split: prod.split)

lemma field_output_Nil:
  "field_output cfg stale [] =
     (if quote_style cfg = QS_EVERYTHING
         \<or> (quote_style cfg = QS_BORDER_SPACES \<and> (stale = SPACE \<or> stale = TAB))
      then [QUOTE, QUOTE] else [])"
proof -
  have fc: "field_content cfg [] = ([], False)"
    by (simp add: field_content_def replace_rule_def split: option.splits)
  show ?thesis by (cases "quote_style cfg") (simp_all add: field_output_def fc needs_quotes_def)
qed

lemma field_buf_after_beyond:
  assumes "2 * length c + 2 \<le> i"
  shows "field_buf_after cfg buf c i = buf i"
proof -
  obtain f replaced where fc: "field_content cfg c = (f, replaced)" by (cases "field_content cfg c")
  have "length (escape_quotes f) \<le> 2 * length c"
    using length_escape_quotes [of f] length_field_content [of cfg c] fc by simp
  with assms show ?thesis by (simp add: field_buf_after_def fc buf_write_apply)
qed

text \<open>C16: a field that contains \<open>n > 0\<close> double quotes after replacement is written with
  exactly \<open>2 n + 2\<close> double quotes: each doubled, plus the two enclosing ones.\<close>

theorem convert_field_quote_count:
  assumes "valid_config cfg" and "field_buf st 0 = QUOTE" and "QUOTE \<in> set (fst (field_content cfg c))"
  shows "\<exists>st' e. convert_field cfg c (length c) st = Some st' \<and>
           out st' = out st @ (if start_of_line st then [] else [COMMA]) @ e \<and>
           count_list e QUOTE = 2 * count_list (fst (field_content cfg c)) QUOTE + 2"
proof -
  obtain f replaced where fc: "field_content cfg c = (f, replaced)" by (cases "field_content cfg c")
  have "field_output cfg (field_buf st 1) c = QUOTE # escape_quotes f @ [QUOTE]"
    using assms(3) by (simp add: field_output_def fc needs_quotes_def)
  then show ?thesis
    using convert_field_result [OF assms(1,2), of c] fc by (auto simp: count_escape_quotes)
qed

text \<open>C17: under the minimum policy a field with no double quote, no comma and no
  occurrence of a replacement pattern is written unchanged.\<close>

theorem convert_field_minimum_identity:
  assumes "valid_config cfg" and "field_buf st 0 = QUOTE" and "quote_style cfg = QS_MINIMUM"
    and "QUOTE \<notin> set c" and "COMMA \<notin> set c"
    and "\<forall>p. r_replacement cfg = Some p \<longrightarrow> count_occ p c = 0"
    and "\<forall>p. n_replacement cfg = Some p \<longrightarrow> count_occ p c = 0"
  shows "\<exists>st'. convert_field cfg c (length c) st = Some st' \<and>
           out st' = out st @ (if start_of_line st then [] else [COMMA]) @ c"
proof -
  have "field_output cfg (field_buf st 1) c = c"
    using assms(3-5) field_content_no_trigger [OF assms(6,7)]
    by (simp add: field_output_def needs_quotes_def escape_quotes_no_quote)
  then show ?thesis using convert_field_result [OF assms(1,2), of c] by auto
qed

text \<open>C12: an empty field is written as two double quotes under the everything policy,
  and also under the border-spaces policy when byte 1 of the scratch buffer, left
  there by an earlier field, is a space or a tab; otherwise it is written as nothing.\<close>

theorem convert_field_empty:
  assumes "valid_config cfg" and "field_buf st 0 = QUOTE"
  shows "\<exists>st'. convert_field cfg [] 0 st = Some st' \<and>
           out st' = out st @ (if start_of_line st then [] else [COMMA]) @
             (if quote_style cfg = QS_EVERYTHING
                 \<or> (quote_style cfg = QS_BORDER_SPACES \<and> (field_buf st 1 = SPACE \<or> field_buf st 1 = TAB))
              then [QUOTE, QUOTE] else [])"
  using convert_field_result [OF assms, of "[]"] field_output_Nil [of cfg "field_buf st 1"] by auto

text \<open>C27: under the border-spaces policy a non-empty field whose first or last byte is a
  space or a tab is written in double quotes.\<close>

theorem convert_field_border_spaces:
  assumes "valid_config cfg" and "field_buf st 0 = QUOTE" and "quote_style cfg = QS_BORDER_SPACES"
    and "fst (field_content cfg c) \<noteq> []"
    and "hd (fst (field_content cfg c)) \<in> {SPACE, TAB} \<or> last (fst (field_content cfg c)) \<in> {SPACE, TAB}"
  shows "\<exists>st'. convert_field cfg c (length c) st = Some st' \<and>
           out st' = out st @ (if start_of_line st then [] else [COMMA]) @
                       QUOTE # escape_quotes (fst (field_content cfg c)) @ [QUOTE]"
proof -
  obtain f replaced where fc: "field_content cfg c = (f, replaced)" by (cases "field_content cfg c")
  have "field_output cfg (field_buf st 1) c = QUOTE # escape_quotes f @ [QUOTE]"
    using assms(3-5) fc by (auto simp: field_output_def needs_quotes_def)
  then show ?thesis using convert_field_result [OF assms(1,2), of c] fc by auto
qed

text \<open>C20: the scratch buffer does not overflow: for a field shorter than the line buffer,
  \<open>convert_field\<close> writes no byte at or beyond \<open>2 len + 2\<close>, which is below the
  buffer's size \<open>MAXFIELDLEN\<close>.\<close>

theorem convert_field_buffer_bound:
  assumes "valid_config cfg" and "field_buf st 0 = QUOTE" and "length c < MAXLINELEN"
  shows "\<exists>st'. convert_field cfg c (length c) st = Some st' \<and>
           (\<forall>i. 2 * length c + 2 \<le> i \<longrightarrow> field_buf st' i = field_buf st i) \<and>
           2 * length c + 2 < MAXFIELDLEN"
proof -
  have "2 * length c + 2 < MAXFIELDLEN" using assms(3) by (simp add: MAXLINELEN_def MAXFIELDLEN_def)
  then show ?thesis using convert_field_result [OF assms(1,2), of c] field_buf_after_beyond by auto
qed

text \<open>C10: the block-copy escaping loop (\<open>strchr\<close> to the next quote, \<open>memcpy\<close> up to and
  including it, one more quote) is equivalent to the byte-at-a-time loop it replaces:
  same scratch buffer, same write position, same quoted flag, and the pointer \<open>c\<close> is
  left on the part of the field after its last quote.\<close>

theorem escape_loop_equiv:
  "escape_loop c (length c) buf cur quoted =
     (case escape_ref c buf cur quoted of
        (buf', cur', quoted') \<Rightarrow> (quote_tail c, length (quote_tail c), buf', cur', quoted'))"
  by (simp add: escape_loop_correct escape_ref_spec)

text \<open>C18: a field in which a replacement rule fired is always written in double quotes,
  whatever the policy: the control byte it now contains must stay inside a quoted
  field.\<close>

theorem convert_field_replacement_quotes:
  assumes "valid_config cfg" and "field_buf st 0 = QUOTE" and "snd (field_content cfg c)"
  shows "\<exists>st'. convert_field cfg c (length c) st = Some st' \<and>
           out st' = out st @ (if start_of_line st then [] else [COMMA]) @
                       QUOTE # escape_quotes (fst (field_content cfg c)) @ [QUOTE]"
proof -
  obtain f replaced where fc: "field_content cfg c = (f, replaced)" by (cases "field_content cfg c")
  have "field_output cfg (field_buf st 1) c = QUOTE # escape_quotes f @ [QUOTE]"
    using assms(3) fc by (simp add: field_output_def needs_quotes_def)
  then show ?thesis using convert_field_result [OF assms(1,2), of c] fc by auto
qed

theorem convert_field_spec_witness:
  "valid_config \<lparr>delimiter = COMMA, quote_style = QS_MINIMUM, r_replacement = None, n_replacement = None\<rparr>
   \<and> field_buf initial_state 0 = QUOTE
   \<and> (\<exists>st'. convert_field \<lparr>delimiter = COMMA, quote_style = QS_MINIMUM, r_replacement = None, n_replacement = None\<rparr>
              ''a,b'' (length ''a,b'') initial_state = Some st' \<and>
            out st' = QUOTE # ''a,b'' @ [QUOTE] \<and> \<not> start_of_line st')"
  using convert_field_spec [of "\<lparr>delimiter = COMMA, quote_style = QS_MINIMUM, r_replacement = None, n_replacement = None\<rparr>"
      initial_state "''a,b''"]
  by (simp add: valid_config_def rule_ok_def initial_state_def initial_field_buf_def field_output_def
      field_content_def replace_rule_def needs_quotes_def escape_quotes_def)

theorem convert_field_quote_count_witness:
  "valid_config \<lparr>delimiter = COMMA, quote_style = QS_MINIMUM, r_replacement = None, n_replacement = None\<rparr> \<and> field_buf initial_state 0 = QUOTE
   \<and> QUOTE \<in> set (fst (field_content \<lparr>delimiter = COMMA, quote_style = QS_MINIMUM, r_replacement = None, n_replacement = None\<rparr> ''a\"b''))
   \<and> (\<exists>st' e. convert_field \<lparr>delimiter = COMMA, quote_style = QS_MINIMUM, r_replacement = None, n_replacement = None\<rparr> ''a\"b'' (length ''a\"b'') initial_state = Some st' \<and>
        out st' = e \<and> count_list e QUOTE = 4)"
  using convert_field_quote_count [of "\<lparr>delimiter = COMMA, quote_style = QS_MINIMUM, r_replacement = None, n_replacement = None\<rparr>" initial_state "''a\"b''"]
  by (simp add: valid_config_def rule_ok_def initial_state_def initial_field_buf_def field_content_def replace_rule_def)

theorem convert_field_minimum_identity_witness:
  "valid_config \<lparr>delimiter = COMMA, quote_style = QS_MINIMUM, r_replacement = None, n_replacement = None\<rparr> \<and> field_buf initial_state 0 = QUOTE \<and> quote_style \<lparr>delimiter = COMMA, quote_style = QS_MINIMUM, r_replacement = None, n_replacement = None\<rparr> = QS_MINIMUM
   \<and> QUOTE \<notin> set ''abc'' \<and> COMMA \<notin> set ''abc''
   \<and> (\<exists>st'. convert_field \<lparr>delimiter = COMMA, quote_style = QS_MINIMUM, r_replacement = None, n_replacement = None\<rparr> ''abc'' (length ''abc'') (initial_state\<lparr>start_of_line := False\<rparr>) = Some st' \<and>
        out st' = '',abc'')"
  using convert_field_minimum_identity [of "\<lparr>delimiter = COMMA, quote_style = QS_MINIMUM, r_replacement = None, n_replacement = None\<rparr>" "initial_state\<lparr>start_of_line := False\<rparr>" "''abc''"]
  by (simp add: valid_config_def rule_ok_def initial_state_def initial_field_buf_def field_content_def replace_rule_def)

theorem convert_field_empty_witness:
  "valid_config \<lparr>delimiter = COMMA, quote_style = QS_BORDER_SPACES, r_replacement = None, n_replacement = None\<rparr>
   \<and> field_buf (initial_state\<lparr>field_buf := buf_write initial_field_buf 1 '' ''\<rparr>) 0 = QUOTE
   \<and> (\<exists>st'. convert_field \<lparr>delimiter = COMMA, quote_style = QS_BORDER_SPACES, r_replacement = None, n_replacement = None\<rparr> [] 0 (initial_state\<lparr>field_buf := buf_write initial_field_buf 1 '' ''\<rparr>) = Some st' \<and>
        out st' = [QUOTE, QUOTE])"
  using convert_field_empty [of "\<lparr>delimiter = COMMA, quote_style = QS_BORDER_SPACES, r_replacement = None, n_replacement = None\<rparr>" "initial_state\<lparr>field_buf := buf_write initial_field_buf 1 '' ''\<rparr>"]
  by (simp add: valid_config_def rule_ok_def initial_state_def initial_field_buf_def field_content_def replace_rule_def buf_write_apply)

theorem convert_field_border_spaces_witness:
  "valid_config \<lparr>delimiter = COMMA, quote_style = QS_BORDER_SPACES, r_replacement = None, n_replacement = None\<rparr> \<and> field_buf initial_state 0 = QUOTE \<and> quote_style \<lparr>delimiter = COMMA, quote_style = QS_BORDER_SPACES, r_replacement = None, n_replacement = None\<rparr> = QS_BORDER_SPACES
   \<and> fst (field_content \<lparr>delimiter = COMMA, quote_style = QS_BORDER_SPACES, r_replacement = None, n_replacement = None\<rparr> '' x'') \<noteq> []
   \<and> (\<exists>st'. convert_field \<lparr>delimiter = COMMA, quote_style = QS_BORDER_SPACES, r_replacement = None, n_replacement = None\<rparr> '' x'' (length '' x'') initial_state = Some st' \<and>
        out st' = QUOTE # '' x'' @ [QUOTE])"
  using convert_field_border_spaces [of "\<lparr>delimiter = COMMA, quote_style = QS_BORDER_SPACES, r_replacement = None, n_replacement = None\<rparr>" initial_state "'' x''"]
  by (simp add: valid_config_def rule_ok_def initial_state_def initial_field_buf_def field_content_def replace_rule_def escape_quotes_def)

theorem convert_field_buffer_bound_witness:
  "valid_config \<lparr>delimiter = COMMA, quote_style = QS_MINIMUM, r_replacement = None, n_replacement = None\<rparr> \<and> field_buf initial_state 0 = QUOTE \<and> length ''ab'' < MAXLINELEN
   \<and> (\<exists>st'. convert_field \<lparr>delimiter = COMMA, quote_style = QS_MINIMUM, r_replacement = None, n_replacement = None\<rparr> ''ab'' (length ''ab'') initial_state = Some st' \<and>
        (\<forall>i. 6 \<le> i \<longrightarrow> field_buf st' i = NUL))"
  using convert_field_buffer_bound [of "\<lparr>delimiter = COMMA, quote_style = QS_MINIMUM, r_replacement = None, n_replacement = None\<rparr>" initial_state "''ab''"]
  by (auto simp: valid_config_def rule_ok_def initial_state_def initial_field_buf_def MAXLINELEN_def)

theorem convert_field_replacement_quotes_witness:
  "valid_config \<lparr>delimiter = COMMA, quote_style = QS_MINIMUM, r_replacement = None,
                 n_replacement = Some [CHR 0x5C, CHR ''n'']\<rparr>
   \<and> field_buf initial_state 0 = QUOTE
   \<and> snd (field_content \<lparr>delimiter = COMMA, quote_style = QS_MINIMUM, r_replacement = None,
                 n_replacement = Some [CHR 0x5C, CHR ''n'']\<rparr> [CHR ''x'', CHR 0x5C, CHR ''n'', CHR ''y''])
   \<and> (\<exists>st'. convert_field \<lparr>delimiter = COMMA, quote_style = QS_MINIMUM, r_replacement = None,
                 n_replacement = Some [CHR 0x5C, CHR ''n'']\<rparr> [CHR ''x'', CHR 0x5C, CHR ''n'', CHR ''y'']
                 (length [CHR ''x'', CHR 0x5C, CHR ''n'', CHR ''y''])
                 initial_state = Some st' \<and>
        out st' = [QUOTE, CHR ''x'', LF, CHR ''y'', QUOTE])"
  using convert_field_replacement_quotes [of "\<lparr>delimiter = COMMA, quote_style = QS_MINIMUM, r_replacement = None,
                 n_replacement = Some [CHR 0x5C, CHR ''n'']\<rparr>" initial_state "[CHR ''x'', CHR 0x5C, CHR ''n'', CHR ''y'']"]
  by (simp add: valid_config_def rule_ok_def initial_state_def initial_field_buf_def field_content_def
      replace_rule_def escape_quotes_def)

end
