(* ===== verification/LineSplitter.thy ===== *)
theory LineSplitter
  imports FieldEncoder
begin

text \<open>
  The line splitter: \<open>convert_line\<close> of \<open>src/src/csv.c\<close> (lines 198--239).  The line is
  the C string read by the driver; \<open>cur\<close> is the rest of it not yet split.  Writing
  the NUL sentinel at the delimiter or terminator position makes the field the C
  string \<open>take f cur\<close>; the terminator byte is restored before the rest of the line,
  \<open>drop f cur\<close>, is written out verbatim.  The field encoder rewrites the field in
  place, but only between \<open>cur\<close> and the sentinel, so the slices the loop reads next are
  the original bytes.  With a NUL delimiter \<open>strchr\<close> finds the terminator and the loop
  steps past the end of the string, so the loop is a \<open>partial_function (option)\<close>.
\<close>

partial_function (option) convert_line_loop :: "config \<Rightarrow> cstring \<Rightarrow> csv_state \<Rightarrow> csv_state option" where
  "convert_line_loop cfg cur st =
     (case strchr cur (delimiter cfg) of
        Some f \<Rightarrow> do {
          st \<leftarrow> convert_field cfg (take f cur) f st;
          convert_line_loop cfg (drop (Suc f) cur) st }
      | None \<Rightarrow>
          (case strpbrk cur [CR, LF] of
             Some f \<Rightarrow> do {
               st \<leftarrow> convert_field cfg (take f cur) f st;
               Some ((write_string (drop f cur) st)\<lparr>start_of_line := True\<rparr>) }
           | None \<Rightarrow> convert_field cfg cur (length cur) st))"

declare convert_line_loop.simps [code]

definition convert_line :: "config \<Rightarrow> cstring \<Rightarrow> csv_state \<Rightarrow> (int \<times> csv_state) option" where
  "convert_line cfg line st = map_option (\<lambda>st. (0, st)) (convert_line_loop cfg line st)"

subsection \<open>The specification of a converted line\<close>

text \<open>
  A line splits at every delimiter; the last piece ends at its first CR or LF, and what
  follows is the line's terminator.  The fields are encoded one after the other, the
  first with a separator unless the line starts a record, each later one with a
  separator, and the stale scratch byte is threaded through them.
\<close>

fun split_on :: "byte \<Rightarrow> cstring \<Rightarrow> cstring list" where
  "split_on d [] = [[]]"
| "split_on d (x # xs) =
     (if x = d then [] # split_on d xs
      else (case split_on d xs of [] \<Rightarrow> [[x]] | s # ss \<Rightarrow> (x # s) # ss))"

definition is_eol :: "byte \<Rightarrow> bool" where
  "is_eol x = (x = CR \<or> x = LF)"

definition line_fields :: "byte \<Rightarrow> cstring \<Rightarrow> cstring list" where
  "line_fields d line =
     (let segs = split_on d line in butlast segs @ [takeWhile (\<lambda>x. \<not> is_eol x) (last segs)])"

definition line_terminator :: "byte \<Rightarrow> cstring \<Rightarrow> byte list" where
  "line_terminator d line = dropWhile (\<lambda>x. \<not> is_eol x) (last (split_on d line))"

fun fields_output :: "config \<Rightarrow> bool \<Rightarrow> byte \<Rightarrow> cstring list \<Rightarrow> byte list \<times> byte" where
  "fields_output cfg sol stale [] = ([], stale)"
| "fields_output cfg sol stale (f # fs) =
     (case fields_output cfg False (next_stale cfg stale f) fs of
        (rest, stale') \<Rightarrow> ((if sol then [] else [COMMA]) @ field_output cfg stale f @ rest, stale'))"

subsection \<open>Splitting lemmas\<close>

lemma split_on_nonempty [simp]: "split_on d xs \<noteq> []"
  by (induction xs) (auto split: list.splits)

lemma split_on_no_delim: "d \<notin> set s \<Longrightarrow> split_on d s = [s]"
  by (induction s) auto

lemma split_on_delim: "d \<notin> set p \<Longrightarrow> split_on d (p @ d # rest) = p # split_on d rest"
  by (induction p) (auto split: list.splits)

lemma line_parts_delim:
  assumes "d \<notin> set p"
  shows "line_fields d (p @ d # rest) = p # line_fields d rest"
    and "line_terminator d (p @ d # rest) = line_terminator d rest"
  using assms by (simp_all add: line_fields_def line_terminator_def split_on_delim Let_def)

lemma line_parts_last:
  assumes "d \<notin> set s"
  shows "line_fields d s = [takeWhile (\<lambda>x. \<not> is_eol x) s]"
    and "line_terminator d s = dropWhile (\<lambda>x. \<not> is_eol x) s"
  using assms by (simp_all add: line_fields_def line_terminator_def split_on_no_delim)

lemma line_fields_nonempty: "line_fields d line \<noteq> []"
  by (simp add: line_fields_def Let_def)

lemma not_eol_set: "(\<lambda>x. \<not> x \<in> set [CR, LF]) = (\<lambda>x. \<not> is_eol x)"
  by (auto simp: is_eol_def)

lemma strpbrk_eol_Some:
  assumes "strpbrk s [CR, LF] = Some f"
  shows "take f s = takeWhile (\<lambda>x. \<not> is_eol x) s" and "drop f s = dropWhile (\<lambda>x. \<not> is_eol x) s"
    and "drop f s \<noteq> []"
proof -
  from assms have ff: "find_first (\<lambda>x. x \<in> set [CR, LF]) s = Some f" by (simp add: strpbrk_def)
  show "take f s = takeWhile (\<lambda>x. \<not> is_eol x) s"
    using find_first_Some_split(4) [OF ff] by (simp only: not_eol_set)
  show "drop f s = dropWhile (\<lambda>x. \<not> is_eol x) s"
    using find_first_Some_split(5) [OF ff] by (simp only: not_eol_set)
  show "drop f s \<noteq> []" using find_first_Some_split(1) [OF ff] by simp
qed

lemma strpbrk_eol_None:
  assumes "strpbrk s [CR, LF] = None"
  shows "takeWhile (\<lambda>x. \<not> is_eol x) s = s" and "dropWhile (\<lambda>x. \<not> is_eol x) s = []"
  using assms by (auto simp: strpbrk_None_iff is_eol_def takeWhile_eq_all_conv dropWhile_eq_Nil_conv)

subsection \<open>What a line conversion does\<close>

lemma fields_output_single:
  "fields_output cfg sol stale [f] =
     ((if sol then [] else [COMMA]) @ field_output cfg stale f, next_stale cfg stale f)"
  by simp

lemma fields_output_stale:
  "quote_style cfg \<noteq> QS_BORDER_SPACES \<Longrightarrow> fst (fields_output cfg sol s fs) = fst (fields_output cfg sol s' fs)"
proof (induction fs arbitrary: sol s s')
  case Nil
  then show ?case by simp
next
  case (Cons f fs)
  then show ?case
    using field_output_stale [OF Cons.prems, of s f s']
    by (simp split: prod.split) (metis fst_conv)
qed

lemma convert_line_loop_result:
  assumes cfg: "valid_config cfg" and b0: "field_buf st 0 = QUOTE"
  shows "\<exists>st'. convert_line_loop cfg line st = Some st' \<and>
           out st' = out st @ fst (fields_output cfg (start_of_line st) (field_buf st 1)
                                     (line_fields (delimiter cfg) line))
                           @ line_terminator (delimiter cfg) line \<and>
           start_of_line st' = (line_terminator (delimiter cfg) line \<noteq> []) \<and>
           flushed st' = flushed st \<and> field_buf st' 0 = QUOTE \<and>
           field_buf st' 1 = snd (fields_output cfg (start_of_line st) (field_buf st 1)
                                     (line_fields (delimiter cfg) line)) \<and>
           (\<forall>i. 2 * length line + 2 \<le> i \<longrightarrow> field_buf st' i = field_buf st i)"
  using b0
proof (induction "length line" arbitrary: line st rule: less_induct)
  case less
  let ?d = "delimiter cfg"
  have dnz: "?d \<noteq> NUL" using cfg by (simp add: valid_config_def)
  show ?case
  proof (cases "strchr line ?d")
    case (Some f)
    let ?p = "take f line" and ?rest = "drop (Suc f) line"
    have split: "line = ?p @ ?d # ?rest" and nd: "?d \<notin> set ?p" and lt: "f < length line"
      using strchr_Some_split [OF dnz Some] by simp_all
    have lp: "length ?p = f" using lt by simp
    obtain st1 where c1: "convert_field cfg ?p f st = Some st1"
      and o1: "out st1 = out st @ (if start_of_line st then [] else [COMMA]) @ field_output cfg (field_buf st 1) ?p"
      and s1: "\<not> start_of_line st1" and fl1: "flushed st1 = flushed st"
      and b1: "field_buf st1 0 = QUOTE" and n1: "field_buf st1 1 = next_stale cfg (field_buf st 1) ?p"
      and a1: "field_buf st1 = field_buf_after cfg (field_buf st) ?p"
      using convert_field_result [OF cfg less.prems, of ?p] lp by auto
    have "length ?rest < length line" using lt by simp
    then obtain st2 where c2: "convert_line_loop cfg ?rest st1 = Some st2"
      and o2: "out st2 = out st1 @ fst (fields_output cfg (start_of_line st1) (field_buf st1 1)
                                    (line_fields ?d ?rest)) @ line_terminator ?d ?rest"
      and s2: "start_of_line st2 = (line_terminator ?d ?rest \<noteq> [])"
      and r2: "flushed st2 = flushed st1 \<and> field_buf st2 0 = QUOTE \<and>
               field_buf st2 1 = snd (fields_output cfg (start_of_line st1) (field_buf st1 1) (line_fields ?d ?rest))"
      and f2: "\<forall>i. 2 * length ?rest + 2 \<le> i \<longrightarrow> field_buf st2 i = field_buf st1 i"
      using less.hyps b1 by blast
    have run: "convert_line_loop cfg line st = Some st2"
      by (simp add: convert_line_loop.simps [of cfg line] Some c1 c2)
    have parts: "line_fields ?d line = ?p # line_fields ?d ?rest"
      "line_terminator ?d line = line_terminator ?d ?rest"
      using line_parts_delim [OF nd, of ?rest] split by simp_all
    have frame: "\<forall>i. 2 * length line + 2 \<le> i \<longrightarrow> field_buf st2 i = field_buf st i"
      using f2 a1 field_buf_after_beyond [of ?p] lt lp by auto
    show ?thesis
      using run o1 o2 s1 s2 r2 fl1 n1 frame by (simp add: parts split: prod.splits)
  next
    case None
    then have nd: "?d \<notin> set line" by (simp add: strchr_None_iff [OF dnz])
    show ?thesis
    proof (cases "strpbrk line [CR, LF]")
      case (Some f)
      note eol = strpbrk_eol_Some [OF Some]
      have lt: "f < length line" using strpbrk_Some_split(2) [OF Some] .
      obtain st1 where c1: "convert_field cfg (take f line) f st = Some st1"
        and o1: "out st1 = out st @ (if start_of_line st then [] else [COMMA]) @ field_output cfg (field_buf st 1) (take f line)"
        and r1: "flushed st1 = flushed st \<and> field_buf st1 0 = QUOTE \<and>
                 field_buf st1 1 = next_stale cfg (field_buf st 1) (take f line)"
        and a1: "field_buf st1 = field_buf_after cfg (field_buf st) (take f line)"
        using convert_field_result [OF cfg less.prems, of "take f line"] lt by auto
      have frame: "\<forall>i. 2 * length line + 2 \<le> i \<longrightarrow> field_buf st1 i = field_buf st i"
        using a1 field_buf_after_beyond [of "take f line"] by auto
      have run: "convert_line_loop cfg line st =
                   Some ((write_string (drop f line) st1)\<lparr>start_of_line := True\<rparr>)"
        by (simp add: convert_line_loop.simps [of cfg line] None Some c1)
      show ?thesis
        using run o1 r1 eol frame by (simp add: line_parts_last [OF nd] write_string_def)
    next
      case None2: None
      note eol = strpbrk_eol_None [OF None2]
      obtain st1 where c1: "convert_field cfg line (length line) st = Some st1"
        and o1: "out st1 = out st @ (if start_of_line st then [] else [COMMA]) @ field_output cfg (field_buf st 1) line"
        and r1: "\<not> start_of_line st1 \<and> flushed st1 = flushed st \<and> field_buf st1 0 = QUOTE \<and>
                 field_buf st1 1 = next_stale cfg (field_buf st 1) line"
        and frame: "\<forall>i. 2 * length line + 2 \<le> i \<longrightarrow> field_buf st1 i = field_buf st i"
        using convert_field_result [OF cfg less.prems, of line] field_buf_after_beyond [of line] by auto
      have run: "convert_line_loop cfg line st = Some st1"
        by (simp add: convert_line_loop.simps [of cfg line] None None2 c1)
      show ?thesis
        using run o1 r1 frame by (simp add: line_parts_last [OF nd] eol)
    qed
  qed
qed

lemma convert_line_empty_rule:
  "r_replacement cfg = Some [] \<or> n_replacement cfg = Some [] \<Longrightarrow> convert_line cfg line st = None"
  by (simp add: convert_line_def convert_line_loop.simps [of cfg line] convert_field_empty_rule
           split: option.splits)

lemma convert_line_loop_nul_delimiter:
  "delimiter cfg = NUL \<Longrightarrow> convert_line_loop cfg line st \<noteq> Some res"
proof
  assume nul: "delimiter cfg = NUL" and ret: "convert_line_loop cfg line st = Some res"
  have "delimiter cfg \<noteq> NUL"
  proof (rule convert_line_loop.raw_induct [where P = "\<lambda>cfg _ _ _. delimiter cfg \<noteq> NUL", OF _ ret])
    fix g :: "config \<Rightarrow> cstring \<Rightarrow> csv_state \<Rightarrow> csv_state option" and cfg cur st res
    assume IH: "\<And>cfg cur st res. g cfg cur st = Some res \<Longrightarrow> delimiter cfg \<noteq> NUL"
      and body: "(case strchr cur (delimiter cfg) of
          Some f \<Rightarrow> convert_field cfg (take f cur) f st \<bind> g cfg (drop (Suc f) cur)
        | None \<Rightarrow>
            (case strpbrk cur [CR, LF] of
               Some f \<Rightarrow> convert_field cfg (take f cur) f st \<bind>
                          (\<lambda>st. Some ((write_string (drop f cur) st)\<lparr>start_of_line := True\<rparr>))
             | None \<Rightarrow> convert_field cfg cur (length cur) st)) = Some res"
    show "delimiter cfg \<noteq> NUL"
    proof
      assume "delimiter cfg = NUL"
      with body obtain st' where "g cfg (drop (Suc (length cur)) cur) st' = Some res"
        by (auto simp: strchr_def split: Option.bind_splits)
      then show False using IH \<open>delimiter cfg = NUL\<close> by blast
    qed
  qed
  with nul show False by simp
qed

text \<open>C4: for a valid configuration, converting a line always returns 0; the output is
  the line's fields (split at every delimiter, the last one ending at the first CR or
  LF) encoded and separated by commas, followed by the line's original terminator
  bytes, and the next field starts a record exactly when a terminator was written.\<close>

theorem convert_line_spec:
  assumes "valid_config cfg" and "field_buf st 0 = QUOTE"
  shows "\<exists>st'. convert_line cfg line st = Some (0, st') \<and>
           out st' = out st @ fst (fields_output cfg (start_of_line st) (field_buf st 1)
                                     (line_fields (delimiter cfg) line))
                           @ line_terminator (delimiter cfg) line \<and>
           start_of_line st' = (line_terminator (delimiter cfg) line \<noteq> [])"
  using convert_line_loop_result [OF assms, of line] by (auto simp: convert_line_def)

theorem convert_line_spec_witness:
  "valid_config \<lparr>delimiter = TAB, quote_style = QS_MINIMUM, r_replacement = None, n_replacement = None\<rparr>
   \<and> field_buf initial_state 0 = QUOTE
   \<and> (\<exists>st'. convert_line \<lparr>delimiter = TAB, quote_style = QS_MINIMUM, r_replacement = None, n_replacement = None\<rparr>
              (''1'' @ [TAB] @ ''2'' @ [CR, LF]) initial_state = Some (0, st') \<and>
            out st' = ''1,2'' @ [CR, LF] \<and> start_of_line st')"
  using convert_line_spec [of "\<lparr>delimiter = TAB, quote_style = QS_MINIMUM, r_replacement = None, n_replacement = None\<rparr>"
      initial_state "''1'' @ [TAB] @ ''2'' @ [CR, LF]"]
  by (simp add: valid_config_def rule_ok_def initial_state_def initial_field_buf_def field_output_def
      field_content_def replace_rule_def needs_quotes_def escape_quotes_def line_fields_def
      line_terminator_def is_eol_def next_stale_def)

text \<open>C26: with a NUL delimiter the splitter never returns: \<open>strchr\<close> finds the string's
  terminator, and the loop keeps stepping past the end of the line.\<close>

theorem convert_line_nul_delimiter:
  "delimiter cfg = NUL \<Longrightarrow> convert_line cfg line st = None"
  using convert_line_loop_nul_delimiter [of cfg line st]
  by (cases "convert_line_loop cfg line st") (auto simp: convert_line_def)

theorem convert_line_nul_delimiter_witness:
  "delimiter \<lparr>delimiter = NUL, quote_style = QS_MINIMUM, r_replacement = None, n_replacement = None\<rparr> = NUL
   \<and> convert_line \<lparr>delimiter = NUL, quote_style = QS_MINIMUM, r_replacement = None, n_replacement = None\<rparr>
        (''a'' @ [LF]) initial_state = None"
  using convert_line_nul_delimiter [of "\<lparr>delimiter = NUL, quote_style = QS_MINIMUM, r_replacement = None, n_replacement = None\<rparr>"
      "''a'' @ [LF]" initial_state]
  by simp

subsection \<open>Line terminators\<close>

lemma split_on_set: "\<forall>s \<in> set (split_on d xs). set s \<subseteq> set xs"
  by (induction xs) (auto split: list.splits)

lemma split_on_append_nodelim:
  "d \<notin> set t \<Longrightarrow> split_on d (xs @ t) = butlast (split_on d xs) @ [last (split_on d xs) @ t]"
proof (induction xs)
  case Nil
  then show ?case by (simp add: split_on_no_delim)
next
  case (Cons x xs)
  then show ?case by (cases "split_on d xs") simp_all
qed

lemma eol_terminator_parts:
  assumes "\<forall>x \<in> set s. \<not> is_eol x" and "t \<in> {[LF], [CR, LF], []}"
  shows "takeWhile (\<lambda>x. \<not> is_eol x) (s @ t) = s" and "dropWhile (\<lambda>x. \<not> is_eol x) (s @ t) = t"
proof -
  have "takeWhile (\<lambda>x. \<not> is_eol x) t = [] \<and> dropWhile (\<lambda>x. \<not> is_eol x) t = t"
    using assms(2) by (auto simp: is_eol_def)
  then show "takeWhile (\<lambda>x. \<not> is_eol x) (s @ t) = s" and "dropWhile (\<lambda>x. \<not> is_eol x) (s @ t) = t"
    using assms(1) by (simp_all add: takeWhile_append2 dropWhile_append2)
qed

lemma line_parts_terminated:
  assumes "CR \<notin> set body" and "LF \<notin> set body" and "d \<noteq> CR" and "d \<noteq> LF"
    and "t \<in> {[LF], [CR, LF], []}"
  shows "line_fields d (body @ t) = split_on d body" and "line_terminator d (body @ t) = t"
proof -
  have dt: "d \<notin> set t" using assms(3-5) by auto
  have noeol: "\<forall>x \<in> set (last (split_on d body)). \<not> is_eol x"
    using split_on_set [of d body] last_in_set [OF split_on_nonempty] assms(1,2) by (auto simp: is_eol_def)
  show "line_fields d (body @ t) = split_on d body" and "line_terminator d (body @ t) = t"
    using eol_terminator_parts [OF noeol assms(5)]
    by (simp_all add: line_fields_def line_terminator_def split_on_append_nodelim [OF dt] Let_def)
qed

text \<open>C19: the terminator is preserved and does not affect the fields: a line whose body
  has no CR or LF, ended by LF, by CR LF or by nothing, is written as the conversion of
  the body's fields followed by exactly that ending.\<close>

theorem convert_line_terminator_preserved:
  assumes "valid_config cfg" and "field_buf st 0 = QUOTE"
    and "CR \<notin> set body" and "LF \<notin> set body" and "delimiter cfg \<noteq> CR" and "delimiter cfg \<noteq> LF"
    and "t \<in> {[LF], [CR, LF], []}"
  shows "\<exists>st'. convert_line cfg (body @ t) st = Some (0, st') \<and>
           out st' = out st @ fst (fields_output cfg (start_of_line st) (field_buf st 1)
                                     (split_on (delimiter cfg) body)) @ t"
proof -
  let ?d = "delimiter cfg"
  note parts = line_parts_terminated [OF assms(3-7)]
  obtain st' where run: "convert_line_loop cfg (body @ t) st = Some st'"
    and o: "out st' = out st @ fst (fields_output cfg (start_of_line st) (field_buf st 1)
                                  (line_fields ?d (body @ t))) @ line_terminator ?d (body @ t)"
    using convert_line_loop_result [OF assms(1,2), of "body @ t"] by blast
  show ?thesis using run o by (simp add: convert_line_def parts)
qed

theorem convert_line_terminator_preserved_witness:
  "valid_config \<lparr>delimiter = COMMA, quote_style = QS_MINIMUM, r_replacement = None, n_replacement = None\<rparr> \<and> field_buf initial_state 0 = QUOTE
   \<and> CR \<notin> set ''1,2,3'' \<and> LF \<notin> set ''1,2,3'' \<and> delimiter \<lparr>delimiter = COMMA, quote_style = QS_MINIMUM, r_replacement = None, n_replacement = None\<rparr> \<noteq> CR \<and> delimiter \<lparr>delimiter = COMMA, quote_style = QS_MINIMUM, r_replacement = None, n_replacement = None\<rparr> \<noteq> LF
   \<and> [CR, LF] \<in> {[LF], [CR, LF], []}
   \<and> (\<exists>st'. convert_line \<lparr>delimiter = COMMA, quote_style = QS_MINIMUM, r_replacement = None, n_replacement = None\<rparr> (''1,2,3'' @ [CR, LF]) initial_state = Some (0, st') \<and>
        out st' = ''1,2,3'' @ [CR, LF])"
  using convert_line_terminator_preserved [of "\<lparr>delimiter = COMMA, quote_style = QS_MINIMUM, r_replacement = None, n_replacement = None\<rparr>" initial_state "''1,2,3''" "[CR, LF]"]
  by (simp add: valid_config_def rule_ok_def initial_state_def initial_field_buf_def field_output_def
      field_content_def replace_rule_def needs_quotes_def escape_quotes_def next_stale_def)

end
