(* ===== verification/LineDriver.thy ===== *)
theory LineDriver
  imports LineSplitter
begin

text \<open>
  The line driver: \<open>convert_from_fp\<close> of \<open>src/src/csv.c\<close> (lines 247--273).  The input
  stream is the bytes not yet read and what the source reports after them: the end of
  the file or a read error.  \<open>fgets (line, size, fp)\<close> reads at most \<open>size - 1\<close> bytes,
  stopping after a line feed; it returns NULL, setting the end-of-file or the error
  indicator, when the source ends before any byte was read or fails during the read.
  The bytes \<open>fgets\<close> stores are followed by a NUL, so \<open>convert_line\<close> sees them up to
  their first NUL (\<open>cstr\<close>).  The driver's result is the value it returns or the
  \<open>errx\<close> exit; the loop is a \<open>partial_function (option)\<close>, as a line it converts may
  not return (a NUL delimiter), and it is shown to return otherwise.
\<close>

datatype stream_end = END_OF_FILE | READ_ERROR

record instream =
  pending :: "byte list"
  at_end :: stream_end
  ferror_flag :: bool
  feof_flag :: bool

datatype driver_result = Returned int | Errx int int

fun take_line :: "nat \<Rightarrow> byte list \<Rightarrow> byte list" where
  "take_line 0 xs = []"
| "take_line (Suc k) [] = []"
| "take_line (Suc k) (x # xs) = (if x = LF then [x] else x # take_line k xs)"

definition fgets :: "nat \<Rightarrow> instream \<Rightarrow> byte list option \<times> instream" where
  "fgets n fp =
     (let k = n - 1; line = take_line k (pending fp)
      in if LF \<notin> set (pending fp) \<and> length (pending fp) < k
            \<and> (pending fp = [] \<or> at_end fp = READ_ERROR)
         then (None, fp\<lparr>pending := [], ferror_flag := (at_end fp = READ_ERROR),
                        feof_flag := (at_end fp = END_OF_FILE)\<rparr>)
         else (Some line, fp\<lparr>pending := drop (length line) (pending fp)\<rparr>))"

text \<open>The loop of lines 253--268; \<open>line\<close> is the content of the line buffer, which a NULL
  return of \<open>fgets\<close> leaves as it was.\<close>

partial_function (option) convert_from_fp_loop ::
  "config \<Rightarrow> int \<Rightarrow> byte list \<Rightarrow> instream \<Rightarrow> csv_state \<Rightarrow> (driver_result \<times> csv_state) option" where
  "convert_from_fp_loop cfg lineno line fp st =
     (case fgets MAXLINELEN fp of
        (res, fp) \<Rightarrow>
          (if res = None \<and> ferror_flag fp then Some (Returned (-1), st)
           else if res = None \<and> feof_flag fp then Some (Returned 0, flush_output st)
           else
             (let line = (case res of Some l \<Rightarrow> l | None \<Rightarrow> line)
              in do {
                (retcode, st) \<leftarrow> convert_line cfg (cstr line) st;
                if retcode \<noteq> 0 then Some (Errx 100 lineno, st)
                else convert_from_fp_loop cfg (lineno + 1) line fp st
              })))"

declare convert_from_fp_loop.simps [code]

definition convert_from_fp :: "config \<Rightarrow> instream \<Rightarrow> csv_state \<Rightarrow> (driver_result \<times> csv_state) option" where
  "convert_from_fp cfg fp st = convert_from_fp_loop cfg 1 [] fp st"

subsection \<open>The lines the driver reads\<close>

text \<open>
  \<open>lines_read m xs e\<close> are the lines that successive \<open>fgets\<close> calls with room for
  \<open>Suc m\<close> bytes return from the bytes \<open>xs\<close> followed by \<open>e\<close>: chunks of at most
  \<open>Suc m\<close> bytes, each ending after its first line feed; on a read error the final
  chunk that runs into the error is not returned.  \<open>run_lines\<close> converts a list of
  lines one after the other, as the loop does.
\<close>

lemma take_line_nonempty: "xs \<noteq> [] \<Longrightarrow> take_line (Suc m) xs \<noteq> []"
  by (cases xs) auto

lemma take_line_length: "length (take_line k xs) \<le> length xs"
  by (induction k xs rule: take_line.induct) auto

lemma fgets_None_flag: "fgets n fp = (None, fp') \<Longrightarrow> ferror_flag fp' \<or> feof_flag fp'"
  by (cases "at_end fp") (auto simp: fgets_def Let_def split: if_splits)

lemma take_line_bound: "length (take_line k xs) \<le> k"
  by (induction k xs rule: take_line.induct) auto

lemma take_line_prefix: "take (length (take_line k xs)) xs = take_line k xs"
  by (induction k xs rule: take_line.induct) auto

lemma take_line_no_lf:
  "LF \<notin> set xs \<Longrightarrow> length xs \<le> k \<Longrightarrow> take_line k (xs @ ys) = xs @ take_line (k - length xs) ys"
proof (induction xs arbitrary: k)
  case Nil
  then show ?case by simp
next
  case (Cons x xs)
  then obtain k' where "k = Suc k'" by (cases k) auto
  with Cons show ?case by auto
qed

lemma take_line_Nil [simp]: "take_line k [] = []"
  by (cases k) simp_all

lemma take_line_LF: "0 < k \<Longrightarrow> take_line k (LF # ys) = [LF]"
  by (cases k) simp_all

function lines_read :: "nat \<Rightarrow> byte list \<Rightarrow> stream_end \<Rightarrow> byte list list" where
  "lines_read m xs e =
     (if LF \<notin> set xs \<and> length xs < Suc m \<and> (xs = [] \<or> e = READ_ERROR) then []
      else take_line (Suc m) xs # lines_read m (drop (length (take_line (Suc m) xs)) xs) e)"
  by pat_completeness auto
termination
proof (relation "measure (\<lambda>(m, xs, e). length xs)")
  fix m xs e
  assume "\<not> (LF \<notin> set xs \<and> length xs < Suc m \<and> (xs = [] \<or> e = READ_ERROR))"
  then have "xs \<noteq> []" by auto
  then have "take_line (Suc m) xs \<noteq> []" by (rule take_line_nonempty)
  then show "((m, drop (length (take_line (Suc m) xs)) xs, e), m, xs, e) \<in> measure (\<lambda>(m, xs, e). length xs)"
    using \<open>xs \<noteq> []\<close> take_line_length [of "Suc m" xs] by auto
qed simp

declare lines_read.simps [simp del]

lemma lines_read_Nil: "lines_read m [] e = []"
  by (simp add: lines_read.simps [of m "[]"])

lemma lines_read_step:
  "LF \<in> set xs \<or> Suc m \<le> length xs \<or> (xs \<noteq> [] \<and> e = END_OF_FILE) \<Longrightarrow>
   lines_read m xs e = take_line (Suc m) xs # lines_read m (drop (length (take_line (Suc m) xs)) xs) e"
  by (subst lines_read.simps) (cases e; auto)

lemma lines_read_append:
  "\<forall>b \<in> set bs. LF \<notin> set b \<and> length b \<le> m \<Longrightarrow>
   lines_read m (concat (map (\<lambda>b. b @ [LF]) bs) @ rest) e = map (\<lambda>b. b @ [LF]) bs @ lines_read m rest e"
proof (induction bs)
  case Nil
  then show ?case by simp
next
  case (Cons b bs)
  let ?rest = "concat (map (\<lambda>b. b @ [LF]) bs) @ rest"
  have tl: "take_line (Suc m) (b @ LF # ?rest) = b @ [LF]"
    using Cons.prems take_line_no_lf [of b "Suc m" "LF # ?rest"] by (simp add: take_line_LF)
  have "lines_read m (b @ LF # ?rest) e = (b @ [LF]) # lines_read m ?rest e"
    using lines_read_step [of "b @ LF # ?rest" m e] tl by simp
  with Cons show ?case by simp
qed

fun run_lines :: "config \<Rightarrow> byte list list \<Rightarrow> csv_state \<Rightarrow> csv_state option" where
  "run_lines cfg [] st = Some st"
| "run_lines cfg (l # ls) st =
     (case convert_line cfg (cstr l) st of None \<Rightarrow> None | Some (r, st') \<Rightarrow> run_lines cfg ls st')"

lemma MAXLINELEN_Suc: "MAXLINELEN - Suc 0 = Suc (MAXLINELEN - 2)"
  by (simp add: MAXLINELEN_def)

lemma convert_line_retcode: "convert_line cfg line st = Some (r, st') \<Longrightarrow> r = 0"
  by (auto simp: convert_line_def)

lemma convert_from_fp_loop_lines:
  "convert_from_fp_loop cfg n line fp st =
     (case run_lines cfg (lines_read (MAXLINELEN - 2) (pending fp) (at_end fp)) st of
        None \<Rightarrow> None
      | Some st' \<Rightarrow> Some (if at_end fp = READ_ERROR then (Returned (-1), st') else (Returned 0, flush_output st')))"
proof (induction "length (pending fp)" arbitrary: n line fp st rule: less_induct)
  case less
  let ?m = "MAXLINELEN - 2"
  let ?xs = "pending fp"
  show ?case
  proof (cases "LF \<notin> set ?xs \<and> length ?xs < Suc ?m \<and> (?xs = [] \<or> at_end fp = READ_ERROR)")
    case True
    then have "fgets MAXLINELEN fp = (None, fp\<lparr>pending := [], ferror_flag := (at_end fp = READ_ERROR),
                        feof_flag := (at_end fp = END_OF_FILE)\<rparr>)"
      by (simp add: fgets_def MAXLINELEN_Suc Let_def)
    moreover have "lines_read ?m ?xs (at_end fp) = []"
      using True by (simp add: lines_read.simps [of ?m ?xs])
    ultimately show ?thesis
      by (cases "at_end fp") (simp_all add: convert_from_fp_loop.simps [of cfg n line fp])
  next
    case False
    let ?l = "take_line (Suc ?m) ?xs"
    let ?fp = "fp\<lparr>pending := drop (length ?l) ?xs\<rparr>"
    have fg: "fgets MAXLINELEN fp = (Some ?l, ?fp)"
      using False by (simp add: fgets_def MAXLINELEN_Suc Let_def)
    have lr: "lines_read ?m ?xs (at_end fp) = ?l # lines_read ?m (pending ?fp) (at_end ?fp)"
      using False by (simp add: lines_read.simps [of ?m ?xs])
    have "?xs \<noteq> []" using False by auto
    then have shorter: "length (pending ?fp) < length ?xs"
      using take_line_nonempty [of ?xs ?m] take_line_length [of "Suc ?m" ?xs] by auto
    show ?thesis
    proof (cases "convert_line cfg (cstr ?l) st")
      case None
      with fg lr show ?thesis by (simp add: convert_from_fp_loop.simps [of cfg n line fp])
    next
      case (Some rs)
      then obtain st1 where c1: "convert_line cfg (cstr ?l) st = Some (0, st1)"
        using convert_line_retcode by (cases rs) fastforce
      have IH: "convert_from_fp_loop cfg (n + 1) ?l ?fp st1 =
        (case run_lines cfg (lines_read ?m (pending ?fp) (at_end ?fp)) st1 of None \<Rightarrow> None
         | Some st' \<Rightarrow> Some (if at_end ?fp = READ_ERROR then (Returned (-1), st') else (Returned 0, flush_output st')))"
        using less shorter by blast
      have step: "convert_from_fp_loop cfg n line fp st = convert_from_fp_loop cfg (n + 1) ?l ?fp st1"
        using fg c1 by (simp add: convert_from_fp_loop.simps [of cfg n line fp])
      have ae: "at_end ?fp = at_end fp" by simp
      show ?thesis
        unfolding step IH ae lr using c1 by simp
    qed
  qed
qed

lemma run_lines_empty_rule:
  "r_replacement cfg = Some [] \<or> n_replacement cfg = Some [] \<Longrightarrow> ls \<noteq> [] \<Longrightarrow> run_lines cfg ls st = None"
  by (cases ls) (simp_all add: convert_line_empty_rule)

text \<open>One \<open>fgets\<close> call in terms of \<open>lines_read\<close>: it returns NULL when no line is left,
  and otherwise the first line, leaving the others.\<close>

lemma fgets_lines_read_Nil:
  assumes "lines_read (MAXLINELEN - 2) (pending fp) (at_end fp) = []"
  shows "fgets MAXLINELEN fp = (None, fp\<lparr>pending := [], ferror_flag := (at_end fp = READ_ERROR),
                                      feof_flag := (at_end fp = END_OF_FILE)\<rparr>)"
proof -
  have "LF \<notin> set (pending fp) \<and> length (pending fp) < Suc (MAXLINELEN - 2) \<and>
        (pending fp = [] \<or> at_end fp = READ_ERROR)"
    using assms by (simp add: lines_read.simps [of _ "pending fp"] split: if_splits)
  then show ?thesis by (simp add: fgets_def MAXLINELEN_Suc Let_def)
qed

lemma fgets_lines_read_Cons:
  assumes "lines_read (MAXLINELEN - 2) (pending fp) (at_end fp) = l # ls"
  shows "\<exists>fp'. fgets MAXLINELEN fp = (Some l, fp') \<and> at_end fp' = at_end fp \<and>
           lines_read (MAXLINELEN - 2) (pending fp') (at_end fp') = ls"
proof -
  let ?xs = "pending fp"
  have c: "\<not> (LF \<notin> set ?xs \<and> length ?xs < Suc (MAXLINELEN - 2) \<and> (?xs = [] \<or> at_end fp = READ_ERROR))"
    using assms by (auto simp: lines_read.simps [of _ ?xs])
  then have "lines_read (MAXLINELEN - 2) ?xs (at_end fp) =
               take_line (Suc (MAXLINELEN - 2)) ?xs #
               lines_read (MAXLINELEN - 2) (drop (length (take_line (Suc (MAXLINELEN - 2)) ?xs)) ?xs) (at_end fp)"
    by (simp add: lines_read.simps [of _ ?xs])
  then show ?thesis
    using assms c by (simp add: fgets_def MAXLINELEN_Suc Let_def)
qed

lemma lines_read_single:
  "LF \<notin> set b \<Longrightarrow> length b \<le> m \<Longrightarrow> lines_read m (b @ [LF]) e = [b @ [LF]]"
  using lines_read_append [of "[b]" m "[]" e] by (simp add: lines_read_Nil)

lemma lines_read_blank_lines: "lines_read (Suc m) (replicate n LF) e = replicate n [LF]"
  by (induction n) (simp_all add: lines_read_Nil lines_read_step take_line_LF)

text \<open>The chunks \<open>fgets\<close> delivers at the boundaries: a line longer than the buffer is
  split after \<open>Suc m\<close> bytes, and an input without line feeds is a single chunk.\<close>

lemma lines_read_long_line:
  assumes "LF \<notin> set b" and "Suc m \<le> length b" and "length b \<le> Suc m + m"
  shows "lines_read m (b @ [LF]) e = [take (Suc m) b, drop (Suc m) b @ [LF]]"
proof -
  let ?c = "take (Suc m) b" and ?r = "drop (Suc m) b"
  have lc: "length ?c = Suc m" using assms(2) by simp
  have nc: "LF \<notin> set ?c" and nr: "LF \<notin> set ?r" using assms(1) by (auto dest: in_set_takeD in_set_dropD)
  have split: "b @ [LF] = ?c @ ?r @ [LF]" by simp
  have tl: "take_line (Suc m) (b @ [LF]) = ?c"
    unfolding split using take_line_no_lf [of ?c "Suc m" "?r @ [LF]", OF nc] lc by simp
  have dr: "drop (length ?c) (b @ [LF]) = ?r @ [LF]"
    unfolding split by (simp only: drop_length_append)
  have rest: "lines_read m (?r @ [LF]) e = [?r @ [LF]]"
    using lines_read_single [OF nr, of m e] assms(3) by simp
  have "lines_read m (b @ [LF]) e = ?c # lines_read m (?r @ [LF]) e"
    using lines_read_step [of "b @ [LF]" m e] assms(2) tl dr by simp
  then show ?thesis using rest by simp
qed

lemma lines_read_no_lf:
  "LF \<notin> set xs \<Longrightarrow> xs \<noteq> [] \<Longrightarrow> length xs \<le> m \<Longrightarrow> lines_read m xs END_OF_FILE = [xs]"
  using lines_read_step [of xs m END_OF_FILE] take_line_no_lf [of xs "Suc m" "[]"]
  by (simp add: lines_read_Nil)

subsection \<open>What the driver writes\<close>

fun lines_output :: "config \<Rightarrow> bool \<Rightarrow> byte \<Rightarrow> byte list list \<Rightarrow> byte list" where
  "lines_output cfg sol stale [] = []"
| "lines_output cfg sol stale (l # ls) =
     (case fields_output cfg sol stale (line_fields (delimiter cfg) (cstr l)) of
        (fo, stale') \<Rightarrow>
          (let t = line_terminator (delimiter cfg) (cstr l)
           in fo @ t @ lines_output cfg (t \<noteq> []) stale' ls))"

lemma lines_output_append:
  "\<exists>x. lines_output cfg sol stale (ls @ ls') = lines_output cfg sol stale ls @ x"
proof (induction ls arbitrary: sol stale)
  case Nil
  then show ?case by simp
next
  case (Cons l ls)
  then show ?case by (simp add: Let_def split: prod.splits)
qed

lemma lines_output_stale:
  "quote_style cfg \<noteq> QS_BORDER_SPACES \<Longrightarrow> lines_output cfg sol s ls = lines_output cfg sol s' ls"
proof (induction ls arbitrary: sol s s')
  case Nil
  then show ?case by simp
next
  case (Cons l ls)
  then show ?case
    using fields_output_stale [OF Cons.prems, of sol s "line_fields (delimiter cfg) (cstr l)" s']
    by (simp add: Let_def split: prod.split) (metis fst_conv)
qed

lemma run_lines_result:
  assumes cfg: "valid_config cfg" and b0: "field_buf st 0 = QUOTE"
  shows "\<exists>st'. run_lines cfg ls st = Some st' \<and>
           out st' = out st @ lines_output cfg (start_of_line st) (field_buf st 1) ls \<and>
           flushed st' = flushed st \<and> field_buf st' 0 = QUOTE"
  using b0
proof (induction ls arbitrary: st)
  case Nil
  then show ?case by simp
next
  case (Cons l ls)
  obtain st1 where c1: "convert_line_loop cfg (cstr l) st = Some st1"
    and o1: "out st1 = out st @ fst (fields_output cfg (start_of_line st) (field_buf st 1)
                                     (line_fields (delimiter cfg) (cstr l)))
                           @ line_terminator (delimiter cfg) (cstr l)"
    and r1: "start_of_line st1 = (line_terminator (delimiter cfg) (cstr l) \<noteq> [])"
      "flushed st1 = flushed st" "field_buf st1 0 = QUOTE"
      "field_buf st1 1 = snd (fields_output cfg (start_of_line st) (field_buf st 1)
                                     (line_fields (delimiter cfg) (cstr l)))"
    using convert_line_loop_result [OF cfg Cons.prems, of "cstr l"] by blast
  obtain st2 where "run_lines cfg ls st1 = Some st2"
    and "out st2 = out st1 @ lines_output cfg (start_of_line st1) (field_buf st1 1) ls"
    and "flushed st2 = flushed st1 \<and> field_buf st2 0 = QUOTE"
    using Cons.IH [OF r1(3)] by blast
  then show ?case
    using c1 o1 r1 by (simp add: convert_line_def Let_def split: prod.splits)
qed

lemma driver_output_eof:
  assumes "valid_config cfg" and "field_buf st 0 = QUOTE" and "at_end fp = END_OF_FILE"
    and "lines_read (MAXLINELEN - 2) (pending fp) END_OF_FILE = ls"
    and "lines_output cfg (start_of_line st) (field_buf st 1) ls = bytes"
  shows "\<exists>st'. convert_from_fp cfg fp st = Some (Returned 0, st') \<and> out st' = out st @ bytes"
  using run_lines_result [OF assms(1,2), of ls] assms(3-5)
  by (auto simp: convert_from_fp_def convert_from_fp_loop_lines flush_output_def)

text \<open>C5: for a valid configuration and an input that ends normally, the driver returns 0
  after flushing the sink, and what it has written is the conversion of the lines
  \<open>fgets\<close> delivers, one after the other.\<close>

theorem convert_from_fp_eof:
  assumes "valid_config cfg" and "field_buf st 0 = QUOTE" and "at_end fp = END_OF_FILE"
  shows "\<exists>st'. convert_from_fp cfg fp st = Some (Returned 0, st') \<and> flushed st' \<and>
           out st' = out st @ lines_output cfg (start_of_line st) (field_buf st 1)
                                (lines_read (MAXLINELEN - 2) (pending fp) END_OF_FILE)"
  using run_lines_result [OF assms(1,2), of "lines_read (MAXLINELEN - 2) (pending fp) END_OF_FILE"] assms(3)
  by (auto simp: convert_from_fp_def convert_from_fp_loop_lines flush_output_def)

text \<open>C13: on a read error the driver returns -1 without flushing the sink, after
  converting the lines read before the error.\<close>

theorem convert_from_fp_read_error:
  assumes "valid_config cfg" and "field_buf st 0 = QUOTE" and "at_end fp = READ_ERROR"
  shows "\<exists>st'. convert_from_fp cfg fp st = Some (Returned (-1), st') \<and> flushed st' = flushed st \<and>
           out st' = out st @ lines_output cfg (start_of_line st) (field_buf st 1)
                                (lines_read (MAXLINELEN - 2) (pending fp) READ_ERROR)"
  using run_lines_result [OF assms(1,2), of "lines_read (MAXLINELEN - 2) (pending fp) READ_ERROR"] assms(3)
  by (auto simp: convert_from_fp_def convert_from_fp_loop_lines)

text \<open>C25: the \<open>errx\<close> exit of line 264 is unreachable: whatever the configuration and
  the input, the driver either does not return or returns a value.\<close>

theorem convert_from_fp_no_errx:
  "convert_from_fp cfg fp st \<noteq> Some (Errx status n, st')"
  by (simp add: convert_from_fp_def convert_from_fp_loop_lines split: option.splits)

text \<open>C14: every complete line is written, whatever follows it: when the input starts
  with lines that end in a line feed and fit the line buffer, the driver returns, on a
  normal end as on a read error later in the input, and its output starts with the
  conversion of those lines.\<close>

theorem convert_from_fp_lines_written:
  assumes "valid_config cfg" and "field_buf st 0 = QUOTE"
    and "pending fp = concat (map (\<lambda>b. b @ [LF]) bs) @ rest"
    and "\<forall>b \<in> set bs. LF \<notin> set b \<and> length b \<le> MAXLINELEN - 2"
  shows "\<exists>r st' x. convert_from_fp cfg fp st = Some (Returned r, st') \<and>
           out st' = out st @ lines_output cfg (start_of_line st) (field_buf st 1) (map (\<lambda>b. b @ [LF]) bs) @ x"
proof -
  let ?ls = "lines_read (MAXLINELEN - 2) (pending fp) (at_end fp)"
  have ls: "?ls = map (\<lambda>b. b @ [LF]) bs @ lines_read (MAXLINELEN - 2) rest (at_end fp)"
    using lines_read_append [OF assms(4)] assms(3) by simp
  obtain st' where run: "run_lines cfg ?ls st = Some st'"
    and o: "out st' = out st @ lines_output cfg (start_of_line st) (field_buf st 1) ?ls"
    using run_lines_result [OF assms(1,2), of ?ls] by blast
  obtain x where x: "lines_output cfg (start_of_line st) (field_buf st 1) ?ls =
                      lines_output cfg (start_of_line st) (field_buf st 1) (map (\<lambda>b. b @ [LF]) bs) @ x"
    using lines_output_append [of cfg "start_of_line st" "field_buf st 1" "map (\<lambda>b. b @ [LF]) bs"] ls by auto
  show ?thesis
    using run o x by (auto simp: convert_from_fp_def convert_from_fp_loop_lines flush_output_def)
qed

subsection \<open>Reachable states and the scratch-buffer invariant\<close>

text \<open>
  The states the converter passes through: the initial state, any state after
  converting a line that fits the line buffer (as every line \<open>fgets\<close> returns does), and
  the flushed state.  The invariant is the one the design states for the scratch
  buffer: its first byte is the pre-seeded double quote, and no byte at or beyond its
  size \<open>MAXFIELDLEN\<close> has ever been written.
\<close>

inductive reachable :: "config \<Rightarrow> csv_state \<Rightarrow> bool" for cfg :: config where
  reach_init: "reachable cfg initial_state"
| reach_line: "reachable cfg st \<Longrightarrow> length line < MAXLINELEN \<Longrightarrow>
                 convert_line cfg line st = Some (r, st') \<Longrightarrow> reachable cfg st'"
| reach_flush: "reachable cfg st \<Longrightarrow> reachable cfg (flush_output st)"

definition buf_inv :: "csv_state \<Rightarrow> bool" where
  "buf_inv st = (field_buf st 0 = QUOTE \<and> (\<forall>i. MAXFIELDLEN \<le> i \<longrightarrow> field_buf st i = NUL))"

lemma buf_inv_initial: "buf_inv initial_state"
  by (simp add: buf_inv_def initial_state_def initial_field_buf_def MAXFIELDLEN_def MAXLINELEN_def)

lemma buf_inv_convert_line:
  assumes cfg: "valid_config cfg" and inv: "buf_inv st" and len: "length line < MAXLINELEN"
    and run: "convert_line cfg line st = Some (r, st')"
  shows "buf_inv st'"
proof -
  from inv have b0: "field_buf st 0 = QUOTE" by (simp add: buf_inv_def)
  obtain st'' where run'': "convert_line_loop cfg line st = Some st''"
    and b0'': "field_buf st'' 0 = QUOTE"
    and frame: "\<forall>i. 2 * length line + 2 \<le> i \<longrightarrow> field_buf st'' i = field_buf st i"
    using convert_line_loop_result [OF cfg b0, of line] by blast
  from run run'' have "st' = st''" by (simp add: convert_line_def)
  moreover have "2 * length line + 2 \<le> MAXFIELDLEN"
    using len by (simp add: MAXLINELEN_def MAXFIELDLEN_def)
  ultimately show ?thesis
    using inv b0'' frame by (auto simp: buf_inv_def)
qed

text \<open>C21: in every state reachable by converting lines that fit the line buffer, and by
  flushing, the scratch buffer keeps its pre-seeded quote at offset 0 and has not been
  written at or beyond \<open>MAXFIELDLEN\<close>.\<close>

theorem reachable_buf_inv:
  assumes "valid_config cfg" and "reachable cfg st"
  shows "buf_inv st"
  using assms(2)
proof (induction rule: reachable.induct)
  case reach_init
  show ?case by (rule buf_inv_initial)
next
  case (reach_line st line r st')
  then show ?case using buf_inv_convert_line [OF assms(1)] by blast
next
  case (reach_flush st)
  then show ?case by (simp add: buf_inv_def flush_output_def)
qed

theorem convert_from_fp_eof_witness:
  "valid_config \<lparr>delimiter = COMMA, quote_style = QS_MINIMUM, r_replacement = None, n_replacement = None\<rparr>
   \<and> field_buf initial_state 0 = QUOTE
   \<and> at_end \<lparr>pending = ''a'' @ [LF], at_end = END_OF_FILE, ferror_flag = False, feof_flag = False\<rparr> = END_OF_FILE
   \<and> (\<exists>st'. convert_from_fp \<lparr>delimiter = COMMA, quote_style = QS_MINIMUM, r_replacement = None, n_replacement = None\<rparr>
              \<lparr>pending = ''a'' @ [LF], at_end = END_OF_FILE, ferror_flag = False, feof_flag = False\<rparr>
              initial_state = Some (Returned 0, st') \<and> flushed st')"
  using convert_from_fp_eof [of "\<lparr>delimiter = COMMA, quote_style = QS_MINIMUM, r_replacement = None, n_replacement = None\<rparr>"
      initial_state "\<lparr>pending = ''a'' @ [LF], at_end = END_OF_FILE, ferror_flag = False, feof_flag = False\<rparr>"]
  by (auto simp: valid_config_def rule_ok_def initial_state_def initial_field_buf_def)

theorem convert_from_fp_read_error_witness:
  "valid_config \<lparr>delimiter = COMMA, quote_style = QS_MINIMUM, r_replacement = None, n_replacement = None\<rparr>
   \<and> field_buf initial_state 0 = QUOTE
   \<and> at_end \<lparr>pending = ''a'', at_end = READ_ERROR, ferror_flag = False, feof_flag = False\<rparr> = READ_ERROR
   \<and> (\<exists>st'. convert_from_fp \<lparr>delimiter = COMMA, quote_style = QS_MINIMUM, r_replacement = None, n_replacement = None\<rparr>
              \<lparr>pending = ''a'', at_end = READ_ERROR, ferror_flag = False, feof_flag = False\<rparr>
              initial_state = Some (Returned (-1), st') \<and> \<not> flushed st')"
  using convert_from_fp_read_error [of "\<lparr>delimiter = COMMA, quote_style = QS_MINIMUM, r_replacement = None, n_replacement = None\<rparr>"
      initial_state "\<lparr>pending = ''a'', at_end = READ_ERROR, ferror_flag = False, feof_flag = False\<rparr>"]
  by (auto simp: valid_config_def rule_ok_def initial_state_def initial_field_buf_def)

theorem reachable_buf_inv_witness:
  "valid_config \<lparr>delimiter = COMMA, quote_style = QS_MINIMUM, r_replacement = None, n_replacement = None\<rparr> \<and> reachable \<lparr>delimiter = COMMA, quote_style = QS_MINIMUM, r_replacement = None, n_replacement = None\<rparr> (flush_output initial_state)
   \<and> buf_inv (flush_output initial_state)"
proof -
  have v: "valid_config \<lparr>delimiter = COMMA, quote_style = QS_MINIMUM, r_replacement = None, n_replacement = None\<rparr>" by (simp add: valid_config_def rule_ok_def)
  have r: "reachable \<lparr>delimiter = COMMA, quote_style = QS_MINIMUM, r_replacement = None, n_replacement = None\<rparr> (flush_output initial_state)"
    by (rule reach_flush [OF reach_init])
  show ?thesis using v r reachable_buf_inv [OF v r] by simp
qed

theorem convert_from_fp_lines_written_witness:
  "valid_config \<lparr>delimiter = COMMA, quote_style = QS_MINIMUM, r_replacement = None, n_replacement = None\<rparr> \<and> field_buf initial_state 0 = QUOTE \<and>
   pending \<lparr>pending = ''a'' @ [LF] @ ''b'', at_end = READ_ERROR, ferror_flag = False, feof_flag = False\<rparr> = concat (map (\<lambda>b. b @ [LF]) [''a'']) @ ''b'' \<and>
   (\<exists>r st' x. convert_from_fp \<lparr>delimiter = COMMA, quote_style = QS_MINIMUM, r_replacement = None, n_replacement = None\<rparr> \<lparr>pending = ''a'' @ [LF] @ ''b'', at_end = READ_ERROR, ferror_flag = False, feof_flag = False\<rparr> initial_state = Some (Returned r, st') \<and>
      out st' = ''a'' @ [LF] @ x)"
  using convert_from_fp_lines_written [of "\<lparr>delimiter = COMMA, quote_style = QS_MINIMUM, r_replacement = None, n_replacement = None\<rparr>" initial_state "\<lparr>pending = ''a'' @ [LF] @ ''b'', at_end = READ_ERROR, ferror_flag = False, feof_flag = False\<rparr>" "[''a'']" "''b''"]
  by (simp add: valid_config_def rule_ok_def initial_state_def initial_field_buf_def MAXLINELEN_def
      cstr_def line_fields_def line_terminator_def is_eol_def field_output_def field_content_def
      replace_rule_def needs_quotes_def escape_quotes_def next_stale_def)

end
