(* ===== verification/CsvWriter.thy ===== *)
theory CsvWriter
  imports LineDriver
begin

text \<open>
  The abstract contract of the converter: an RFC-4180 record writer.  Its state is
  the text written so far and whether the next field starts a record; its events are
  a field (by its content) and the end of a record (by the terminator bytes).  A field
  may be written in any RFC-4180 encoding of its content (\<open>rfc_encoding\<close>): quoted
  with the quotes doubled, or bare when it holds no quote and no comma; fields of a
  record are separated by commas.  The writer is nondeterministic in that choice and
  leaves the quoting policy to the implementation.  \<open>abs_state\<close> maps the converter's
  state to the writer's, and the lemmas show that \<open>convert_field\<close>, \<open>convert_line\<close> and
  the driver each simulate the writer on the events their input determines.
\<close>

datatype csv_event = Field cstring | EndRecord "byte list"

record writer =
  w_text :: "byte list"
  w_start :: bool

definition rfc_encoding :: "cstring \<Rightarrow> byte list \<Rightarrow> bool" where
  "rfc_encoding f e =
     (e = QUOTE # escape_quotes f @ [QUOTE] \<or> (e = f \<and> QUOTE \<notin> set f \<and> COMMA \<notin> set f))"

inductive writer_step :: "writer \<Rightarrow> csv_event \<Rightarrow> writer \<Rightarrow> bool" where
  ws_field: "rfc_encoding f e \<Longrightarrow>
    writer_step w (Field f)
      \<lparr>w_text = w_text w @ (if w_start w then [] else [COMMA]) @ e, w_start = False\<rparr>"
| ws_end: "t \<noteq> [] \<Longrightarrow> writer_step w (EndRecord t) \<lparr>w_text = w_text w @ t, w_start = True\<rparr>"

inductive writer_steps :: "writer \<Rightarrow> csv_event list \<Rightarrow> writer \<Rightarrow> bool" where
  wss_nil: "writer_steps w [] w"
| wss_cons: "writer_step w e w' \<Longrightarrow> writer_steps w' es w'' \<Longrightarrow> writer_steps w (e # es) w''"

inductive_cases writer_steps_NilE: "writer_steps w [] w'"
inductive_cases writer_steps_ConsE: "writer_steps w (e # es) w'"
inductive_simps writer_step_Field: "writer_step w (Field f) w'"
inductive_simps writer_step_EndRecord: "writer_step w (EndRecord t) w'"

definition abs_state :: "csv_state \<Rightarrow> writer" where
  "abs_state st = \<lparr>w_text = out st, w_start = start_of_line st\<rparr>"

text \<open>The events of one line: its fields, after the replacement rules, then the end of
  the record when the line has a terminator.\<close>

definition line_events :: "config \<Rightarrow> cstring \<Rightarrow> csv_event list" where
  "line_events cfg line =
     map (\<lambda>c. Field (fst (field_content cfg c))) (line_fields (delimiter cfg) line) @
     (let t = line_terminator (delimiter cfg) line in if t = [] then [] else [EndRecord t])"

subsection \<open>Runs of the writer\<close>

lemma writer_steps_append:
  "writer_steps w es w' \<Longrightarrow> writer_steps w' es' w'' \<Longrightarrow> writer_steps w (es @ es') w''"
  by (induction rule: writer_steps.induct) (auto intro: writer_steps.intros)

lemma writer_steps_single: "writer_step w e w' \<Longrightarrow> writer_steps w [e] w'"
  by (auto intro: writer_steps.intros)

subsection \<open>Every encoded field is an RFC-4180 field\<close>

lemma field_output_rfc: "rfc_encoding (fst (field_content cfg c)) (field_output cfg stale c)"
  by (auto simp: rfc_encoding_def field_output_def needs_quotes_def escape_quotes_no_quote
      split: prod.splits)

lemma fields_output_writer:
  "writer_steps \<lparr>w_text = o0, w_start = sol\<rparr> (map (\<lambda>c. Field (fst (field_content cfg c))) fs)
     \<lparr>w_text = o0 @ fst (fields_output cfg sol stale fs), w_start = (sol \<and> fs = [])\<rparr>"
proof (induction fs arbitrary: o0 sol stale)
  case Nil
  then show ?case by (simp add: wss_nil)
next
  case (Cons c fs)
  let ?e = "field_output cfg stale c"
  let ?o1 = "o0 @ (if sol then [] else [COMMA]) @ ?e"
  have step: "writer_step \<lparr>w_text = o0, w_start = sol\<rparr> (Field (fst (field_content cfg c)))
                \<lparr>w_text = ?o1, w_start = False\<rparr>"
    using ws_field [OF field_output_rfc, of "\<lparr>w_text = o0, w_start = sol\<rparr>" cfg c stale] by simp
  obtain rest s' where r: "fields_output cfg False (next_stale cfg stale c) fs = (rest, s')"
    by (cases "fields_output cfg False (next_stale cfg stale c) fs")
  show ?case
    using wss_cons [OF step Cons.IH [of ?o1 False "next_stale cfg stale c"]] r by simp
qed

lemma convert_field_writer:
  assumes "valid_config cfg" and "field_buf st 0 = QUOTE"
  shows "\<exists>st'. convert_field cfg c (length c) st = Some st' \<and>
           writer_step (abs_state st) (Field (fst (field_content cfg c))) (abs_state st')"
proof -
  obtain st' where run: "convert_field cfg c (length c) st = Some st'"
    and o: "out st' = out st @ (if start_of_line st then [] else [COMMA]) @ field_output cfg (field_buf st 1) c"
    and s: "\<not> start_of_line st'"
    using convert_field_result [OF assms, of c] by blast
  have "writer_step (abs_state st) (Field (fst (field_content cfg c))) (abs_state st')"
    using ws_field [OF field_output_rfc, of "abs_state st" cfg c "field_buf st 1"] o s
    by (simp add: abs_state_def)
  with run show ?thesis by blast
qed

lemma convert_line_writer:
  assumes "valid_config cfg" and "field_buf st 0 = QUOTE"
  shows "\<exists>st'. convert_line_loop cfg line st = Some st' \<and>
           writer_steps (abs_state st) (line_events cfg line) (abs_state st') \<and>
           field_buf st' 0 = QUOTE \<and> flushed st' = flushed st"
proof -
  let ?d = "delimiter cfg"
  let ?t = "line_terminator ?d line"
  let ?fo = "fst (fields_output cfg (start_of_line st) (field_buf st 1) (line_fields ?d line))"
  obtain st' where run: "convert_line_loop cfg line st = Some st'"
    and o: "out st' = out st @ ?fo @ ?t" and s: "start_of_line st' = (?t \<noteq> [])"
    and fl: "flushed st' = flushed st" and b: "field_buf st' 0 = QUOTE"
    using convert_line_loop_result [OF assms, of line] by blast
  have fields: "writer_steps (abs_state st)
                  (map (\<lambda>c. Field (fst (field_content cfg c))) (line_fields ?d line))
                  \<lparr>w_text = out st @ ?fo, w_start = False\<rparr>"
    using fields_output_writer [of "out st" "start_of_line st" cfg "line_fields ?d line" "field_buf st 1"]
    by (simp add: abs_state_def line_fields_nonempty)
  have tail: "writer_steps \<lparr>w_text = out st @ ?fo, w_start = False\<rparr>
                (if ?t = [] then [] else [EndRecord ?t]) (abs_state st')"
  proof (cases "?t = []")
    case True
    then show ?thesis using o s by (simp add: abs_state_def wss_nil)
  next
    case False
    then show ?thesis
      using writer_steps_single [OF ws_end [OF False, of "\<lparr>w_text = out st @ ?fo, w_start = False\<rparr>"]] o s
      by (simp add: abs_state_def)
  qed
  show ?thesis
    using run fl b writer_steps_append [OF fields tail] by (simp add: line_events_def Let_def)
qed

lemma run_lines_writer:
  assumes "valid_config cfg" and "field_buf st 0 = QUOTE"
  shows "\<exists>st'. run_lines cfg ls st = Some st' \<and>
           writer_steps (abs_state st) (concat (map (\<lambda>l. line_events cfg (cstr l)) ls)) (abs_state st') \<and>
           flushed st' = flushed st"
  using assms(2)
proof (induction ls arbitrary: st)
  case Nil
  then show ?case by (simp add: wss_nil)
next
  case (Cons l ls)
  obtain st1 where c1: "convert_line_loop cfg (cstr l) st = Some st1"
    and w1: "writer_steps (abs_state st) (line_events cfg (cstr l)) (abs_state st1)"
    and b1: "field_buf st1 0 = QUOTE" and f1: "flushed st1 = flushed st"
    using convert_line_writer [OF assms(1) Cons.prems] by blast
  obtain st' where r: "run_lines cfg ls st1 = Some st'"
    and w: "writer_steps (abs_state st1) (concat (map (\<lambda>l. line_events cfg (cstr l)) ls)) (abs_state st')"
    and f: "flushed st' = flushed st1"
    using Cons.IH [OF b1] by blast
  show ?case
    using c1 r writer_steps_append [OF w1 w] f f1 by (simp add: convert_line_def)
qed

text \<open>C6: \<open>convert_line\<close> refines the RFC-4180 writer: converting a line moves the
  abstraction of the state (text written, start of record) through one writer step per
  field of the line, with the field's content after the replacement rules, and one
  end-of-record step carrying the line's terminator when it has one.\<close>

theorem convert_line_refines_writer:
  assumes "valid_config cfg" and "field_buf st 0 = QUOTE"
  shows "\<exists>st'. convert_line cfg line st = Some (0, st') \<and>
           writer_steps (abs_state st) (line_events cfg line) (abs_state st')"
  using convert_line_writer [OF assms, of line] by (auto simp: convert_line_def)

text \<open>C7: the whole driver refines the writer: on an input that ends normally,
  \<open>convert_from_fp\<close> returns 0 after flushing, and its output is a run of the writer
  over the events of the lines \<open>fgets\<close> delivers, in order.\<close>

theorem convert_from_fp_refines_writer:
  assumes "valid_config cfg" and "field_buf st 0 = QUOTE" and "at_end fp = END_OF_FILE"
  shows "\<exists>st'. convert_from_fp cfg fp st = Some (Returned 0, st') \<and> flushed st' \<and>
           writer_steps (abs_state st)
             (concat (map (\<lambda>l. line_events cfg (cstr l))
                        (lines_read (MAXLINELEN - 2) (pending fp) END_OF_FILE)))
             (abs_state st')"
proof -
  obtain st' where r: "run_lines cfg (lines_read (MAXLINELEN - 2) (pending fp) END_OF_FILE) st = Some st'"
    and w: "writer_steps (abs_state st)
              (concat (map (\<lambda>l. line_events cfg (cstr l)) (lines_read (MAXLINELEN - 2) (pending fp) END_OF_FILE)))
              (abs_state st')"
    using run_lines_writer [OF assms(1,2)] by blast
  have "abs_state (flush_output st') = abs_state st'" by (simp add: abs_state_def flush_output_def)
  then show ?thesis
    using r w assms(3) by (simp add: convert_from_fp_def convert_from_fp_loop_lines flush_output_def)
qed

text \<open>C11: every field the encoder writes is well formed: after the separator,
  \<open>convert_field\<close> writes one RFC-4180 encoding of the field's content, either quoted
  with its quotes doubled or bare and then free of quotes and commas.\<close>

theorem convert_field_rfc_field:
  assumes "valid_config cfg" and "field_buf st 0 = QUOTE"
  shows "\<exists>st' e. convert_field cfg c (length c) st = Some st' \<and>
           out st' = out st @ (if start_of_line st then [] else [COMMA]) @ e \<and>
           rfc_encoding (fst (field_content cfg c)) e"
  using convert_field_result [OF assms, of c] field_output_rfc by blast

subsection \<open>Witnesses\<close>

theorem convert_line_refines_writer_witness:
  "valid_config \<lparr>delimiter = COMMA, quote_style = QS_MINIMUM, r_replacement = None, n_replacement = None\<rparr> \<and> field_buf initial_state 0 = QUOTE \<and>
   line_events \<lparr>delimiter = COMMA, quote_style = QS_MINIMUM, r_replacement = None, n_replacement = None\<rparr> (''a,b'' @ [LF]) = [Field ''a'', Field ''b'', EndRecord [LF]] \<and>
   (\<exists>st'. convert_line \<lparr>delimiter = COMMA, quote_style = QS_MINIMUM, r_replacement = None, n_replacement = None\<rparr> (''a,b'' @ [LF]) initial_state = Some (0, st') \<and>
      writer_steps (abs_state initial_state) [Field ''a'', Field ''b'', EndRecord [LF]] (abs_state st'))"
proof -
  have ev: "line_events \<lparr>delimiter = COMMA, quote_style = QS_MINIMUM, r_replacement = None, n_replacement = None\<rparr> (''a,b'' @ [LF]) = [Field ''a'', Field ''b'', EndRecord [LF]]"
    by (simp add: line_events_def line_fields_def line_terminator_def is_eol_def field_content_def
        replace_rule_def)
  show ?thesis
    using convert_line_refines_writer [of "\<lparr>delimiter = COMMA, quote_style = QS_MINIMUM, r_replacement = None, n_replacement = None\<rparr>" initial_state "''a,b'' @ [LF]"] ev
    by (simp add: valid_config_def rule_ok_def initial_state_def initial_field_buf_def)
qed

theorem convert_from_fp_refines_writer_witness:
  "valid_config \<lparr>delimiter = COMMA, quote_style = QS_MINIMUM, r_replacement = None, n_replacement = None\<rparr> \<and> field_buf initial_state 0 = QUOTE \<and> at_end \<lparr>pending = ''a,b'' @ [LF], at_end = END_OF_FILE, ferror_flag = False, feof_flag = False\<rparr> = END_OF_FILE \<and>
   (\<exists>st'. convert_from_fp \<lparr>delimiter = COMMA, quote_style = QS_MINIMUM, r_replacement = None, n_replacement = None\<rparr> \<lparr>pending = ''a,b'' @ [LF], at_end = END_OF_FILE, ferror_flag = False, feof_flag = False\<rparr> initial_state = Some (Returned 0, st') \<and> flushed st' \<and>
      writer_steps (abs_state initial_state)
        (concat (map (\<lambda>l. line_events \<lparr>delimiter = COMMA, quote_style = QS_MINIMUM, r_replacement = None, n_replacement = None\<rparr> (cstr l))
                   (lines_read (MAXLINELEN - 2) (pending \<lparr>pending = ''a,b'' @ [LF], at_end = END_OF_FILE, ferror_flag = False, feof_flag = False\<rparr>) END_OF_FILE)))
        (abs_state st'))"
  using convert_from_fp_refines_writer [of "\<lparr>delimiter = COMMA, quote_style = QS_MINIMUM, r_replacement = None, n_replacement = None\<rparr>" initial_state "\<lparr>pending = ''a,b'' @ [LF], at_end = END_OF_FILE, ferror_flag = False, feof_flag = False\<rparr>"]
  by (simp add: valid_config_def rule_ok_def initial_state_def initial_field_buf_def)

theorem convert_field_rfc_field_witness:
  "valid_config \<lparr>delimiter = COMMA, quote_style = QS_MINIMUM, r_replacement = None, n_replacement = None\<rparr> \<and> field_buf initial_state 0 = QUOTE \<and>
   (\<exists>st' e. convert_field \<lparr>delimiter = COMMA, quote_style = QS_MINIMUM, r_replacement = None, n_replacement = None\<rparr> (''x'' @ [QUOTE] @ ''y'') (length (''x'' @ [QUOTE] @ ''y'')) initial_state = Some st' \<and>
      out st' = e \<and> rfc_encoding (''x'' @ [QUOTE] @ ''y'') e)"
  using convert_field_rfc_field [of "\<lparr>delimiter = COMMA, quote_style = QS_MINIMUM, r_replacement = None, n_replacement = None\<rparr>" initial_state "''x'' @ [QUOTE] @ ''y''"]
  by (simp add: valid_config_def rule_ok_def initial_state_def initial_field_buf_def field_content_def
      replace_rule_def)

end
