(* ===== verification/CsvReader.thy ===== *)
theory CsvReader
  imports LineSplitter
begin

text \<open>
  An RFC-4180 reader for one record, the abstract specification the converter's output
  is checked against: a field is either a run of bytes other than the comma, or a
  double-quoted string in which a doubled quote stands for one quote; fields are
  separated by commas.  The reader fails on a quoted field that is not closed or is
  followed by anything but a comma or the end.
\<close>

fun parse_quoted :: "byte list \<Rightarrow> (byte list \<times> byte list) option" where
  "parse_quoted [] = None"
| "parse_quoted (x # xs) =
     (if x = QUOTE
      then (case xs of
              y # ys \<Rightarrow> if y = QUOTE then map_option (\<lambda>(f, r). (QUOTE # f, r)) (parse_quoted ys)
                        else Some ([], xs)
            | [] \<Rightarrow> Some ([], []))
      else map_option (\<lambda>(f, r). (x # f, r)) (parse_quoted xs))"

definition parse_field :: "byte list \<Rightarrow> (byte list \<times> byte list) option" where
  "parse_field s =
     (case s of
        x # xs \<Rightarrow> if x = QUOTE then parse_quoted xs
                  else Some (takeWhile (\<lambda>c. c \<noteq> COMMA) s, dropWhile (\<lambda>c. c \<noteq> COMMA) s)
      | [] \<Rightarrow> Some ([], []))"

lemma parse_quoted_length: "parse_quoted s = Some (f, r) \<Longrightarrow> length r < Suc (length s)"
  by (induction s arbitrary: f r rule: parse_quoted.induct)
     (fastforce split: if_splits list.splits)+

lemma parse_field_length: "parse_field s = Some (f, r) \<Longrightarrow> length r \<le> length s"
  by (auto simp: parse_field_def length_dropWhile_le le_SucI split: list.splits if_splits
      dest: parse_quoted_length)

function parse_record :: "byte list \<Rightarrow> byte list list option" where
  "parse_record s =
     (case parse_field s of
        None \<Rightarrow> None
      | Some (f, []) \<Rightarrow> Some [f]
      | Some (f, c # r) \<Rightarrow> if c = COMMA then map_option (Cons f) (parse_record r) else None)"
  by pat_completeness auto
termination
  by (relation "measure length") (auto dest: parse_field_length)

declare parse_record.simps [simp del]

subsection \<open>Reading back encoded fields\<close>

definition sep_next :: "byte list \<Rightarrow> bool" where
  "sep_next rest = (rest = [] \<or> hd rest = COMMA)"

lemma parse_quoted_escaped:
  "sep_next rest \<Longrightarrow> parse_quoted (escape_quotes f @ QUOTE # rest) = Some (f, rest)"
proof (induction f)
  case Nil
  then show ?case by (cases rest) (auto simp: sep_next_def)
next
  case (Cons x f)
  then show ?case by (simp add: escape_quotes_Cons)
qed

lemma parse_field_unquoted:
  assumes "QUOTE \<notin> set f" and "COMMA \<notin> set f" and "sep_next rest"
  shows "parse_field (f @ rest) = Some (f, rest)"
proof -
  have tw: "takeWhile (\<lambda>c. c \<noteq> COMMA) (f @ rest) = f"
    and dw: "dropWhile (\<lambda>c. c \<noteq> COMMA) (f @ rest) = rest"
    using assms(2,3) by (cases rest; auto simp: sep_next_def takeWhile_append dropWhile_append)+
  show ?thesis
  proof (cases f)
    case Nil
    with assms(3) show ?thesis by (cases rest) (auto simp: parse_field_def sep_next_def)
  next
    case (Cons x xs)
    with assms(1) have "x \<noteq> QUOTE" by auto
    with Cons tw dw show ?thesis by (simp add: parse_field_def)
  qed
qed

lemma parse_field_output:
  assumes "sep_next rest"
  shows "parse_field (field_output cfg stale c @ rest) = Some (fst (field_content cfg c), rest)"
proof -
  obtain f replaced where fc: "field_content cfg c = (f, replaced)" by (cases "field_content cfg c")
  show ?thesis
  proof (cases "needs_quotes (quote_style cfg) stale replaced f")
    case True
    then show ?thesis
      using parse_quoted_escaped [OF assms, of f] by (simp add: field_output_def fc parse_field_def)
  next
    case False
    then have "QUOTE \<notin> set f" "COMMA \<notin> set f" by (simp_all add: needs_quotes_def)
    with False show ?thesis
      using parse_field_unquoted [OF _ _ assms] by (simp add: field_output_def fc escape_quotes_no_quote)
  qed
qed

lemma fields_output_sep:
  "fst (fields_output cfg False stale fs) = (if fs = [] then [] else COMMA # fst (fields_output cfg True stale fs))"
  by (cases fs) (simp_all split: prod.splits)

lemma parse_fields_output:
  "fs \<noteq> [] \<Longrightarrow> parse_record (fst (fields_output cfg True stale fs)) = Some (map (\<lambda>c. fst (field_content cfg c)) fs)"
proof (induction fs arbitrary: stale)
  case Nil
  then show ?case by simp
next
  case (Cons c fs)
  let ?rest = "fst (fields_output cfg False (next_stale cfg stale c) fs)"
  have out: "fst (fields_output cfg True stale (c # fs)) = field_output cfg stale c @ ?rest"
    by (simp split: prod.splits)
  have sn: "sep_next ?rest" by (simp add: fields_output_sep sep_next_def)
  show ?case
  proof (cases "fs = []")
    case True
    then have "?rest = []" by simp
    then show ?thesis
      using parse_field_output [of "[]" cfg stale c]
      by (simp only: out) (simp add: parse_record.simps sep_next_def True)
  next
    case False
    let ?X = "fst (fields_output cfg True (next_stale cfg stale c) fs)"
    have rest: "?rest = COMMA # ?X" using False by (simp add: fields_output_sep)
    have pf: "parse_field (field_output cfg stale c @ COMMA # ?X) = Some (fst (field_content cfg c), COMMA # ?X)"
      using parse_field_output [OF sn, of cfg stale c] rest by simp
    show ?thesis
      unfolding out rest
      using pf Cons.IH [OF False] by (simp add: parse_record.simps [of "field_output cfg stale c @ COMMA # ?X"])
  qed
qed

end
