(* ===== verification/LineBuffer.thy ===== *)
theory LineBuffer
  imports LineDriver
begin

text \<open>
  The converter on its line buffer.  \<open>convert_line\<close> does not copy fields out of the
  line: it writes a NUL over each delimiter (line 211) and over the first CR or LF
  (line 225), hands \<open>convert_field\<close> a pointer into the buffer, and restores the
  terminator byte afterwards (line 227); \<open>replace_string_by_char\<close> then rewrites the
  field in place, storing the replacement byte and closing the gap with \<open>memmove\<close>
  (lines 76--79).  This theory models that code on the buffer itself, a byte list
  with pointers as indices: \<open>replace_at_arr\<close>, \<open>replace_loop_arr\<close>,
  \<open>apply_replacement_arr\<close>, \<open>convert_field_arr\<close>, \<open>convert_line_arr\<close> and
  \<open>convert_line_buf\<close>.  The lemmas show that every in-place step stays inside the field
  it works on, so the fields after it are read intact, and that the buffer code computes
  the same output and state as the model of \<open>LineSplitter\<close>, which passes the fields as
  slices of the line.
\<close>

subsection \<open>Pattern substitution in the buffer\<close>

text \<open>Lines 76--79 at index \<open>i\<close>: store the replacement byte, then move the rest of the
  string, its NUL included, from \<open>r = c + patlen - 1\<close> down to \<open>c\<close>.\<close>

definition replace_at_arr :: "byte list \<Rightarrow> nat \<Rightarrow> nat \<Rightarrow> byte \<Rightarrow> byte list" where
  "replace_at_arr l i patlen repl =
     (let l1 = l[i := repl]; c = Suc i; r = c + patlen - 1
      in memmove l1 c r (Suc (length (cstr (drop r l1)))))"

partial_function (option) replace_loop_arr ::
  "cstring \<Rightarrow> byte \<Rightarrow> byte list \<Rightarrow> nat \<Rightarrow> nat \<Rightarrow> (byte list \<times> nat) option" where
  "replace_loop_arr pattern repl l c count =
     (case strstr (cstr (drop c l)) pattern of
        None \<Rightarrow> Some (l, count)
      | Some k \<Rightarrow>
          replace_loop_arr pattern repl (replace_at_arr l (c + k) (length pattern) repl)
            (Suc (c + k)) (Suc count))"

declare replace_loop_arr.simps [code]

definition replace_string_by_char_arr ::
  "byte list \<Rightarrow> nat \<Rightarrow> cstring \<Rightarrow> byte \<Rightarrow> (byte list \<times> nat) option" where
  "replace_string_by_char_arr l big pattern repl = replace_loop_arr pattern repl l big 0"

subsection \<open>The field encoder and the splitter on the buffer\<close>

text \<open>Lines 114--128 with the field at index \<open>c\<close> of the buffer: after a substitution
  \<open>len\<close> is re-measured with \<open>strlen\<close>.\<close>

definition apply_replacement_arr ::
  "cstring option \<Rightarrow> byte \<Rightarrow> nat \<Rightarrow> byte list \<times> nat \<times> bool \<Rightarrow> (byte list \<times> nat \<times> bool) option" where
  "apply_replacement_arr rule repl c fld =
     (case fld of (l, len, quoted) \<Rightarrow>
       (case rule of
          None \<Rightarrow> Some (l, len, quoted)
        | Some pat \<Rightarrow>
            (case replace_string_by_char_arr l c pat repl of
               None \<Rightarrow> None
             | Some (l', count) \<Rightarrow>
                 Some (if 0 < count then (l', length (cstr (drop c l')), True) else (l', len, quoted)))))"

text \<open>\<open>convert_field (c, len)\<close> with \<open>c\<close> an index into the line buffer \<open>l\<close>: the escaping
  loop reads the C string at \<open>c\<close>, and the buffer is returned with the state.\<close>

definition convert_field_arr ::
  "config \<Rightarrow> byte list \<Rightarrow> nat \<Rightarrow> nat \<Rightarrow> csv_state \<Rightarrow> (byte list \<times> csv_state) option" where
  "convert_field_arr cfg l c len st =
     (let st = (if \<not> start_of_line st then write_character COMMA st else st)
      in do {
        (l, len, quoted) \<leftarrow> apply_replacement_arr (r_replacement cfg) CR c (l, len, False);
        (l, len, quoted) \<leftarrow> apply_replacement_arr (n_replacement cfg) LF c (l, len, quoted);
        (case escape_loop (cstr (drop c l)) len (field_buf st) 1 quoted of
          (c', len, buf, cur, quoted) \<Rightarrow>
            Some (l, finish_field buf cur (decide_quoting (quote_style cfg) buf c' len quoted) st))
      })"

text \<open>Lines 204--236 on the buffer: the NUL sentinel is a store into the line (lines 211
  and 225), the terminator byte is saved and stored back (lines 224 and 227), and the
  tail written at the end is the C string at \<open>f\<close>.\<close>

partial_function (option) convert_line_arr ::
  "config \<Rightarrow> byte list \<Rightarrow> nat \<Rightarrow> csv_state \<Rightarrow> (byte list \<times> csv_state) option" where
  "convert_line_arr cfg l cur st =
     (case strchr (cstr (drop cur l)) (delimiter cfg) of
        Some k \<Rightarrow>
          (let f = cur + k
           in do {
             (l, st) \<leftarrow> convert_field_arr cfg (l[f := NUL]) cur k st;
             convert_line_arr cfg l (Suc f) st })
      | None \<Rightarrow>
          (case strpbrk (cstr (drop cur l)) [CR, LF] of
             Some k \<Rightarrow>
               (let f = cur + k; ch = l ! f
                in do {
                  (l, st) \<leftarrow> convert_field_arr cfg (l[f := NUL]) cur k st;
                  let l = l[f := ch];
                  Some (l, (write_string (cstr (drop f l)) st)\<lparr>start_of_line := True\<rparr>) })
           | None \<Rightarrow> convert_field_arr cfg l cur (length (cstr (drop cur l))) st))"

declare convert_line_arr.simps [code]

definition convert_line_buf :: "config \<Rightarrow> byte list \<Rightarrow> csv_state \<Rightarrow> (int \<times> byte list \<times> csv_state) option" where
  "convert_line_buf cfg line st = map_option (\<lambda>(l, st). (0, l, st)) (convert_line_arr cfg line 0 st)"

text \<open>The driver on its line buffer (lines 247--273): \<open>fgets\<close> stores the bytes it reads
  and a NUL at the start of \<open>line\<close> and leaves the rest of the array as it was, and
  \<open>convert_line\<close> receives the array.\<close>

definition fgets_buf :: "nat \<Rightarrow> instream \<Rightarrow> byte list \<Rightarrow> bool \<times> byte list \<times> instream" where
  "fgets_buf n fp l =
     (case fgets n fp of
        (None, fp) \<Rightarrow> (False, l, fp)
      | (Some bytes, fp) \<Rightarrow> (True, bytes @ NUL # drop (Suc (length bytes)) l, fp))"

partial_function (option) convert_from_fp_buf_loop ::
  "config \<Rightarrow> int \<Rightarrow> byte list \<Rightarrow> instream \<Rightarrow> csv_state \<Rightarrow> (driver_result \<times> csv_state) option" where
  "convert_from_fp_buf_loop cfg lineno l fp st =
     (case fgets_buf MAXLINELEN fp l of
        (ok, l, fp) \<Rightarrow>
          (if \<not> ok \<and> ferror_flag fp then Some (Returned (-1), st)
           else if \<not> ok \<and> feof_flag fp then Some (Returned 0, flush_output st)
           else do {
             (retcode, l, st) \<leftarrow> convert_line_buf cfg l st;
             if retcode \<noteq> 0 then Some (Errx 100 lineno, st)
             else convert_from_fp_buf_loop cfg (lineno + 1) l fp st
           }))"

declare convert_from_fp_buf_loop.simps [code]

definition convert_from_fp_buf :: "config \<Rightarrow> instream \<Rightarrow> byte list \<Rightarrow> csv_state \<Rightarrow> (driver_result \<times> csv_state) option" where
  "convert_from_fp_buf cfg fp line st = convert_from_fp_buf_loop cfg 1 line fp st"

subsection \<open>One substitution step stays inside the string\<close>

lemma replace_at_arr_split:
  assumes "NUL \<notin> set s" and "j + patlen \<le> length s" and "0 < patlen"
  shows "\<exists>mid. replace_at_arr (p @ s @ NUL # rest) (length p + j) patlen repl =
                 p @ replace_at s j patlen repl @ NUL # mid @ rest \<and>
               length (replace_at s j patlen repl) + length mid = length s"
proof -
  let ?s1 = "s[j := repl]"
  let ?k = "length s + 2 - patlen"
  let ?mid = "drop ?k (?s1 @ [NUL])"
  have j: "j < length s" using assms(2,3) by simp
  have l1: "(p @ s @ NUL # rest)[length p + j := repl] = p @ ?s1 @ NUL # rest"
    using j by (simp add: list_update_append)
  have src: "drop (Suc (length p + j) + patlen - 1) (p @ ?s1 @ NUL # rest) = drop (j + patlen) s @ NUL # rest"
    using assms(2,3) by simp
  have nonul: "NUL \<notin> set (drop (j + patlen) s)" using assms(1) by (auto dest: in_set_dropD)
  have len: "length (cstr (drop (j + patlen) s @ NUL # rest)) = length s - (j + patlen)"
    using nonul by (simp add: cstr_append_nul)
  have mv: "take (Suc (length s - (j + patlen))) (drop (j + patlen) s @ NUL # rest) = drop (j + patlen) s @ [NUL]"
    by simp
  have k: "Suc (length p + j) + Suc (length s - (j + patlen)) = length p + ?k"
    using assms(2,3) by simp
  have tl: "drop (length p + ?k) (p @ ?s1 @ NUL # rest) = ?mid @ rest"
  proof -
    have "?k \<le> length (?s1 @ [NUL])" using assms(3) by simp
    then have "drop ?k ((?s1 @ [NUL]) @ rest) = ?mid @ rest" by (rule drop_append_le)
    then show ?thesis by simp
  qed
  have hd: "take (Suc (length p + j)) (p @ ?s1 @ NUL # rest) = p @ take (Suc j) ?s1"
    using j by simp
  have ra: "replace_at s j patlen repl = take (Suc j) ?s1 @ drop (j + patlen) s"
    using assms(3) by (simp add: replace_at_def)
  have "replace_at_arr (p @ s @ NUL # rest) (length p + j) patlen repl =
          p @ replace_at s j patlen repl @ NUL # ?mid @ rest"
    unfolding replace_at_arr_def Let_def l1 memmove_def src len mv k tl hd ra by simp
  moreover have "length (replace_at s j patlen repl) + length ?mid = length s"
    using assms(2,3) ra by simp
  ultimately show ?thesis by blast
qed

lemma replace_loop_arr_correct:
  assumes "pat \<noteq> []" and "NUL \<notin> set s"
  shows "\<exists>mid. replace_loop_arr pat repl (p @ s @ NUL # rest) (length p) n =
                 Some (p @ replace_all pat repl s @ NUL # mid @ rest, n + count_occ pat s) \<and>
               length (replace_all pat repl s) + length mid = length s"
  using assms(2)
proof (induction "length s" arbitrary: p s n rest rule: less_induct)
  case less
  have cs: "cstr (s @ NUL # rest) = s" using less.prems by (rule cstr_append_nul)
  show ?case
  proof (cases "strstr s pat")
    case None
    then have "replace_loop_arr pat repl (p @ s @ NUL # rest) (length p) n = Some (p @ s @ NUL # rest, n)"
      by (simp add: replace_loop_arr.simps cs)
    then show ?thesis using strstr_None_replace_all [OF None, of repl] by force
  next
    case (Some k)
    let ?s' = "drop (k + length pat) s"
    let ?p' = "p @ take k s @ [repl]"
    have le: "k + length pat \<le> length s" using strstr_nonempty_lt [OF Some assms(1)] .
    obtain mid1 where step: "replace_at_arr (p @ s @ NUL # rest) (length p + k) (length pat) repl =
                               p @ replace_at s k (length pat) repl @ NUL # mid1 @ rest"
      and len1: "length (replace_at s k (length pat) repl) + length mid1 = length s"
      using replace_at_arr_split [OF less.prems le, of p rest repl] assms(1) by auto
    have ra: "replace_at s k (length pat) repl = take k s @ [repl] @ ?s'"
      using replace_at_split [of k "length pat" s "[]" repl] le assms(1) by simp
    have shorter: "length ?s' < length s" using le assms(1) by (cases pat) auto
    have nonul: "NUL \<notin> set ?s'" using less.prems by (auto dest: in_set_dropD)
    obtain mid2 where IH: "replace_loop_arr pat repl (?p' @ ?s' @ NUL # (mid1 @ rest)) (length ?p') (Suc n) =
                             Some (?p' @ replace_all pat repl ?s' @ NUL # mid2 @ (mid1 @ rest), Suc n + count_occ pat ?s')"
      and len2: "length (replace_all pat repl ?s') + length mid2 = length ?s'"
      using less.hyps [OF shorter nonul] by blast
    have len': "Suc (length p + k) = length ?p'" using le by simp
    have "replace_loop_arr pat repl (p @ s @ NUL # rest) (length p) n =
            replace_loop_arr pat repl (?p' @ ?s' @ NUL # (mid1 @ rest)) (length ?p') (Suc n)"
      using le by (simp add: replace_loop_arr.simps [of pat repl "p @ s @ NUL # rest"] cs Some step ra len' [symmetric])
    also have "\<dots> = Some (p @ replace_all pat repl s @ NUL # (mid2 @ mid1) @ rest, n + count_occ pat s)"
      using IH strstr_Some_replace_all [OF Some assms(1), of repl] by simp
    finally show ?thesis
      using len1 len2 ra strstr_Some_replace_all [OF Some assms(1), of repl] by force
  qed
qed

subsection \<open>The field encoder stays inside its field\<close>

lemma replace_rule_no_nul:
  "NUL \<notin> set c \<Longrightarrow> repl \<noteq> NUL \<Longrightarrow> NUL \<notin> set (fst (replace_rule rule repl c))"
  using set_replace_all [of _ repl c] by (auto simp: replace_rule_def split: option.splits)

lemma apply_replacement_arr_spec:
  assumes "rule_ok rule" and "repl \<noteq> NUL" and "NUL \<notin> set c"
  shows "\<exists>mid. apply_replacement_arr rule repl (length p) (p @ c @ NUL # rest, length c, q) =
                 Some (p @ fst (replace_rule rule repl c) @ NUL # mid @ rest,
                       length (fst (replace_rule rule repl c)), q \<or> snd (replace_rule rule repl c)) \<and>
               length (fst (replace_rule rule repl c)) + length mid = length c"
proof (cases rule)
  case None
  then show ?thesis by (simp add: apply_replacement_arr_def replace_rule_def)
next
  case (Some pat)
  with assms(1) have pat: "pat \<noteq> []" by (simp add: rule_ok_def)
  obtain mid where loop: "replace_loop_arr pat repl (p @ c @ NUL # rest) (length p) 0 =
                            Some (p @ replace_all pat repl c @ NUL # mid @ rest, count_occ pat c)"
    and len: "length (replace_all pat repl c) + length mid = length c"
    using replace_loop_arr_correct [OF pat assms(3), of repl p rest 0] by auto
  have nn: "NUL \<notin> set (replace_all pat repl c)"
    using replace_rule_no_nul [OF assms(3,2), of rule] Some by (simp add: replace_rule_def)
  have "apply_replacement_arr rule repl (length p) (p @ c @ NUL # rest, length c, q) =
          Some (p @ replace_all pat repl c @ NUL # mid @ rest,
                length (replace_all pat repl c), q \<or> 0 < count_occ pat c)"
    using Some loop nn
    by (auto simp: apply_replacement_arr_def replace_string_by_char_arr_def cstr_append_nul
        count_occ_zero_replace_all)
  then show ?thesis using Some len by (simp add: replace_rule_def)
qed

lemma convert_field_arr_spec:
  assumes "valid_config cfg" and "NUL \<notin> set c"
  shows "\<exists>mid. convert_field_arr cfg (p @ c @ NUL # rest) (length p) (length c) st =
                 map_option (Pair (p @ fst (field_content cfg c) @ NUL # mid @ rest))
                   (convert_field cfg c (length c) st) \<and>
               length (fst (field_content cfg c)) + length mid = length c"
proof -
  obtain c1 r1 where rr1: "replace_rule (r_replacement cfg) CR c = (c1, r1)"
    by (cases "replace_rule (r_replacement cfg) CR c")
  obtain c2 r2 where rr2: "replace_rule (n_replacement cfg) LF c1 = (c2, r2)"
    by (cases "replace_rule (n_replacement cfg) LF c1")
  have fc: "field_content cfg c = (c2, r1 \<or> r2)" using rr1 rr2 by (simp add: field_content_def)
  from assms(1) have ok1: "rule_ok (r_replacement cfg)" and ok2: "rule_ok (n_replacement cfg)"
    by (simp_all add: valid_config_def)
  have nn1: "NUL \<notin> set c1" using replace_rule_no_nul [OF assms(2), of CR "r_replacement cfg"] rr1 by simp
  have nn2: "NUL \<notin> set c2" using replace_rule_no_nul [OF nn1, of LF "n_replacement cfg"] rr2 by simp
  obtain mid1 where a1: "apply_replacement_arr (r_replacement cfg) CR (length p) (p @ c @ NUL # rest, length c, False) =
                           Some (p @ c1 @ NUL # mid1 @ rest, length c1, r1)"
    and l1: "length c1 + length mid1 = length c"
    using apply_replacement_arr_spec [OF ok1 _ assms(2), of CR p rest False] rr1 by auto
  obtain mid2 where a2: "apply_replacement_arr (n_replacement cfg) LF (length p) (p @ c1 @ NUL # (mid1 @ rest), length c1, r1) =
                           Some (p @ c2 @ NUL # mid2 @ mid1 @ rest, length c2, r1 \<or> r2)"
    and l2: "length c2 + length mid2 = length c1"
    using apply_replacement_arr_spec [OF ok2 _ nn1, of LF p "mid1 @ rest" r1] rr2 by auto
  have s1: "apply_replacement (r_replacement cfg) CR (c, length c, False) = Some (c1, length c1, r1)"
    using apply_replacement_spec [OF ok1, of CR c False] rr1 by simp
  have s2: "apply_replacement (n_replacement cfg) LF (c1, length c1, r1) = Some (c2, length c2, r1 \<or> r2)"
    using apply_replacement_spec [OF ok2, of LF c1 r1] rr2 by simp
  have cs: "cstr (drop (length p) (p @ c2 @ NUL # mid2 @ mid1 @ rest)) = c2"
    using nn2 by (rule cstr_at)
  have "convert_field_arr cfg (p @ c @ NUL # rest) (length p) (length c) st =
          map_option (Pair (p @ c2 @ NUL # (mid2 @ mid1) @ rest)) (convert_field cfg c (length c) st)"
    using a1 a2 s1 s2 cs
    by (simp add: convert_field_arr_def convert_field_def Let_def split: prod.splits)
  then show ?thesis using fc l1 l2 by (intro exI [of _ "mid2 @ mid1"]) simp
qed

subsection \<open>The splitter on the buffer computes the slice model\<close>

lemma convert_line_arr_correct:
  assumes cfg: "valid_config cfg" and b0: "field_buf st 0 = QUOTE" and nn: "NUL \<notin> set line"
  shows "\<exists>st' m. convert_line_loop cfg line st = Some st' \<and>
           convert_line_arr cfg (p @ line @ NUL # rest) (length p) st = Some (p @ m @ rest, st') \<and>
           length m = Suc (length line)"
  using b0 nn
proof (induction "length line" arbitrary: line p st rule: less_induct)
  case less
  let ?d = "delimiter cfg"
  have cs: "cstr (line @ NUL # rest) = line" using less.prems(2) by (rule cstr_append_nul)
  have dn: "?d \<noteq> NUL" using cfg by (simp add: valid_config_def)
  show ?case
  proof (cases "strchr line ?d")
    case (Some k)
    note sp = strchr_Some_split [OF dn Some]
    let ?fld = "take k line" and ?r = "drop (Suc k) line"
    have nf: "NUL \<notin> set ?fld" and nr: "NUL \<notin> set ?r"
      using less.prems(2) by (auto dest: in_set_takeD in_set_dropD)
    have lk: "length ?fld = k" using sp(3) by simp
    obtain mid where fa: "convert_field_arr cfg (p @ ?fld @ NUL # (?r @ NUL # rest)) (length p) k st =
                            map_option (Pair (p @ fst (field_content cfg ?fld) @ NUL # mid @ ?r @ NUL # rest))
                              (convert_field cfg ?fld k st)"
      and lm: "length (fst (field_content cfg ?fld)) + length mid = k"
      using convert_field_arr_spec [OF cfg nf, of p "?r @ NUL # rest" st] lk by auto
    obtain st1 where f1: "convert_field cfg ?fld k st = Some st1" and b1: "field_buf st1 0 = QUOTE"
      using convert_field_result [OF cfg less.prems(1), of ?fld] lk by auto
    let ?p' = "p @ fst (field_content cfg ?fld) @ NUL # mid"
    have shorter: "length ?r < length line" using sp(3) by simp
    obtain st' m where l': "convert_line_loop cfg ?r st1 = Some st'"
      and a': "convert_line_arr cfg (?p' @ ?r @ NUL # rest) (length ?p') st1 = Some (?p' @ m @ rest, st')"
      and m: "length m = Suc (length ?r)"
      using less.hyps [OF shorter b1 nr, of ?p'] by blast
    have lp: "length ?p' = Suc (length p + k)" using lm by simp
    have "convert_line_arr cfg (p @ line @ NUL # rest) (length p) st = Some (?p' @ m @ rest, st')"
      using a' fa f1 sp(3) lm
      by (simp add: convert_line_arr.simps [of cfg "p @ line @ NUL # rest"] cs Some update_sentinel)
    moreover have "convert_line_loop cfg line st = Some st'"
      using f1 l' by (simp add: convert_line_loop.simps [of cfg line] Some)
    moreover have "length (fst (field_content cfg ?fld) @ NUL # mid @ m) = Suc (length line)"
      using lm m sp(3) by simp
    ultimately show ?thesis by (metis append.assoc append_Cons)
  next
    case None
    show ?thesis
    proof (cases "strpbrk line [CR, LF]")
      case (Some k)
      note sp = strpbrk_Some_split [OF Some]
      let ?fld = "take k line" and ?r = "drop (Suc k) line" and ?ch = "line ! k"
      have nf: "NUL \<notin> set ?fld" and nr: "NUL \<notin> set ?r"
        using less.prems(2) by (auto dest: in_set_takeD in_set_dropD)
      have lk: "length ?fld = k" using sp(2) by simp
      obtain mid where fa: "convert_field_arr cfg (p @ ?fld @ NUL # (?r @ NUL # rest)) (length p) k st =
                              map_option (Pair (p @ fst (field_content cfg ?fld) @ NUL # mid @ ?r @ NUL # rest))
                                (convert_field cfg ?fld k st)"
        and lm: "length (fst (field_content cfg ?fld)) + length mid = k"
        using convert_field_arr_spec [OF cfg nf, of p "?r @ NUL # rest" st] lk by auto
      obtain st1 where f1: "convert_field cfg ?fld k st = Some st1"
        using convert_field_result [OF cfg less.prems(1), of ?fld] lk by auto
      let ?a = "p @ fst (field_content cfg ?fld)"
      have upd: "(?a @ NUL # mid @ ?r @ NUL # rest)[length p + k := ?ch] =
                   ?a @ butlast (NUL # mid) @ ?ch # ?r @ NUL # rest"
        using update_segment_end [of ?a NUL mid "?r @ NUL # rest" ?ch] lm by (simp add: add.assoc)
      have ch: "(p @ line @ NUL # rest) ! (length p + k) = ?ch" using sp(2) by (simp add: nth_append)
      have la: "length (p @ fst (field_content cfg ?fld) @ butlast (NUL # mid)) = length p + k"
        using lm by auto
      have tl: "drop (length p + k) (?a @ butlast (NUL # mid) @ ?ch # ?r @ NUL # rest) = ?ch # ?r @ NUL # rest"
        using drop_length_append [of "?a @ butlast (NUL # mid)" "?ch # ?r @ NUL # rest"]
        unfolding la append.assoc .
      have chn: "?ch \<noteq> NUL" using sp(3) by auto
      have dk: "drop k line = ?ch # ?r" using sp(2) by (simp add: Cons_nth_drop_Suc)
      have cs': "cstr (drop (length p) (p @ line @ NUL # rest)) = line" using less.prems(2) by (rule cstr_at)
      have fa': "convert_field_arr cfg (p @ ?fld @ NUL # (?r @ NUL # rest)) (length p) k st =
                   Some (?a @ NUL # mid @ ?r @ NUL # rest, st1)"
        using fa f1 by simp
      have ct: "cstr (?ch # ?r @ NUL # rest) = drop k line"
        using cstr_append_nul [of "?ch # ?r" rest] nr chn dk by simp
      have "convert_line_arr cfg (p @ line @ NUL # rest) (length p) st =
              Some (?a @ butlast (NUL # mid) @ ?ch # ?r @ NUL # rest,
                    (write_string (drop k line) st1)\<lparr>start_of_line := True\<rparr>)"
        apply (subst convert_line_arr.simps)
        apply (simp only: cs' None Some option.case Let_def ch update_sentinel [OF sp(2)] fa')
        apply (simp only: bind.simps prod.case upd)
        apply (simp only: tl ct)
        done
      moreover have "convert_line_loop cfg line st = Some ((write_string (drop k line) st1)\<lparr>start_of_line := True\<rparr>)"
        using f1 by (simp add: convert_line_loop.simps [of cfg line] None Some)
      moreover have "length (fst (field_content cfg ?fld) @ butlast (NUL # mid) @ ?ch # ?r @ [NUL]) = Suc (length line)"
        using lm sp(2) by (cases mid) auto
      ultimately show ?thesis by (metis append.assoc append_Cons append_Nil)
    next
      case None': None
      have nul: "length (cstr (line @ NUL # rest)) = length line" using cs by simp
      obtain mid where fa: "convert_field_arr cfg (p @ line @ NUL # rest) (length p) (length line) st =
                              map_option (Pair (p @ fst (field_content cfg line) @ NUL # mid @ rest))
                                (convert_field cfg line (length line) st)"
        and lm: "length (fst (field_content cfg line)) + length mid = length line"
        using convert_field_arr_spec [OF cfg less.prems(2), of p rest st] by auto
      obtain st1 where f1: "convert_field cfg line (length line) st = Some st1"
        using convert_field_result [OF cfg less.prems(1), of line] by auto
      have "convert_line_arr cfg (p @ line @ NUL # rest) (length p) st =
              Some (p @ (fst (field_content cfg line) @ NUL # mid) @ rest, st1)"
        using fa f1 by (simp add: convert_line_arr.simps [of cfg "p @ line @ NUL # rest"] cs None None' nul)
      moreover have "convert_line_loop cfg line st = Some st1"
        using f1 by (simp add: convert_line_loop.simps [of cfg line] None None')
      ultimately show ?thesis using lm by fastforce
    qed
  qed
qed

text \<open>C8: the splitter on the line buffer refines the slice model: for a valid
  configuration and a line buffer holding the line, its NUL and whatever an earlier,
  longer line left after it, \<open>convert_line\<close> with its in-place sentinels, substitutions
  and terminator restore returns 0 in exactly the state the slice model computes, and
  writes nothing past the line's NUL.\<close>

theorem convert_line_buf_refines:
  assumes "valid_config cfg" and "field_buf st 0 = QUOTE" and "NUL \<notin> set line"
  shows "\<exists>st' m. convert_line cfg line st = Some (0, st') \<and>
           convert_line_buf cfg (line @ NUL # junk) st = Some (0, m @ junk, st') \<and>
           length m = Suc (length line)"
  using convert_line_arr_correct [OF assms, of "[]" junk]
  by (auto simp: convert_line_def convert_line_buf_def)

text \<open>C15: substitution in place stays inside its field: on a buffer that holds the
  field at index \<open>length p\<close> followed by its NUL, \<open>replace_string_by_char\<close> with a
  non-empty pattern leaves the bytes before the field and after its NUL unchanged,
  leaves the left-to-right non-overlapping replacement of the field as the C string at
  the same index, and returns the number of replacements.\<close>

theorem replace_string_by_char_arr_in_place:
  assumes "pat \<noteq> []" and "NUL \<notin> set c"
  shows "\<exists>mid. replace_string_by_char_arr (p @ c @ NUL # rest) (length p) pat repl =
                 Some (p @ replace_all pat repl c @ NUL # mid @ rest, count_occ pat c) \<and>
               length (replace_all pat repl c) + length mid = length c"
  using replace_loop_arr_correct [OF assms, of repl p rest 0]
  by (simp add: replace_string_by_char_arr_def)

subsection \<open>The driver on the line buffer computes the slice model\<close>

lemma convert_line_buf_cstr:
  assumes "valid_config cfg" and "field_buf st 0 = QUOTE"
  shows "\<exists>st' l'. convert_line cfg (cstr bytes) st = Some (0, st') \<and>
           convert_line_buf cfg (bytes @ NUL # rest) st = Some (0, l', st') \<and>
           length l' = length (bytes @ NUL # rest)"
proof -
  obtain ys where sp: "bytes @ NUL # rest = cstr bytes @ NUL # ys" using cstr_split by blast
  obtain st' m where c: "convert_line_loop cfg (cstr bytes) st = Some st'"
    and a: "convert_line_arr cfg ([] @ cstr bytes @ NUL # ys) (length ([] :: byte list)) st = Some ([] @ m @ ys, st')"
    and m: "length m = Suc (length (cstr bytes))"
    using convert_line_arr_correct [OF assms nul_notin_cstr [of bytes], of "[]" ys] by blast
  have "length (m @ ys) = length (bytes @ NUL # rest)" using m arg_cong [OF sp, of length] by simp
  then show ?thesis using c a sp by (simp add: convert_line_def convert_line_buf_def)
qed

lemma convert_from_fp_buf_loop_eq:
  assumes cfg: "valid_config cfg"
  shows "field_buf st 0 = QUOTE \<Longrightarrow> length l = MAXLINELEN \<Longrightarrow>
         convert_from_fp_buf_loop cfg n l fp st = convert_from_fp_loop cfg n line fp st"
proof (induction "length (pending fp)" arbitrary: n l line fp st rule: less_induct)
  case less
  obtain res fp' where fg: "fgets MAXLINELEN fp = (res, fp')" by (cases "fgets MAXLINELEN fp")
  show ?case
  proof (cases res)
    case None
    then show ?thesis
      using fg fgets_None_flag [of MAXLINELEN fp fp'] by (auto simp add: convert_from_fp_buf_loop.simps [of cfg n l fp] convert_from_fp_loop.simps [of cfg n line fp]
          fgets_buf_def)
  next
    case (Some bytes)
    let ?xs = "pending fp" and ?m = "MAXLINELEN - 2"
    have ne: "\<not> (LF \<notin> set ?xs \<and> length ?xs < Suc ?m \<and> (?xs = [] \<or> at_end fp = READ_ERROR))"
      using fg Some by (auto simp: fgets_def MAXLINELEN_Suc Let_def split: if_splits)
    have fgs: "fgets MAXLINELEN fp = (Some (take_line (Suc ?m) ?xs),
                 fp\<lparr>pending := drop (length (take_line (Suc ?m) ?xs)) ?xs\<rparr>)"
      using ne by (simp add: fgets_def MAXLINELEN_Suc Let_def)
    have b: "bytes = take_line (Suc ?m) ?xs" using fg Some fgs by simp
    have fp': "fp' = fp\<lparr>pending := drop (length bytes) ?xs\<rparr>" using fg Some fgs b by simp
    have "?xs \<noteq> []" using ne by auto
    then have shorter: "length (pending fp') < length ?xs"
      using take_line_nonempty [of ?xs ?m] take_line_length [of "Suc ?m" ?xs] b fp' by auto
    have lb: "length bytes < MAXLINELEN"
      using b take_line_bound [of "Suc ?m" ?xs] by (simp add: MAXLINELEN_def)
    let ?l1 = "bytes @ NUL # drop (Suc (length bytes)) l"
    obtain st1 l2 where c: "convert_line cfg (cstr bytes) st = Some (0, st1)"
      and a: "convert_line_buf cfg ?l1 st = Some (0, l2, st1)" and ll: "length l2 = length ?l1"
      using convert_line_buf_cstr [OF cfg less.prems(1), of bytes "drop (Suc (length bytes)) l"] by blast
    have b1: "field_buf st1 0 = QUOTE"
      using convert_line_loop_result [OF cfg less.prems(1), of "cstr bytes"] c by (auto simp: convert_line_def)
    have l2: "length l2 = MAXLINELEN" using ll lb less.prems(2) by simp
    have IH: "convert_from_fp_buf_loop cfg (n + 1) l2 fp' st1 = convert_from_fp_loop cfg (n + 1) bytes fp' st1"
      using less.hyps [OF shorter b1 l2] .
    show ?thesis
      using fg Some c a IH
      by (simp add: convert_from_fp_buf_loop.simps [of cfg n l fp] convert_from_fp_loop.simps [of cfg n line fp]
          fgets_buf_def)
  qed
qed

text \<open>C29: the driver on its line buffer refines the slice model: with a valid
  configuration and a line array of \<open>MAXLINELEN\<close> bytes of any content, the loop that
  \<open>fgets\<close> into the array and converts it in place returns the same result in the same
  state as the model of \<open>LineDriver\<close>, on every input stream.\<close>

theorem convert_from_fp_buf_refines:
  assumes "valid_config cfg" and "field_buf st 0 = QUOTE" and "length line = MAXLINELEN"
  shows "convert_from_fp_buf cfg fp line st = convert_from_fp cfg fp st"
  using convert_from_fp_buf_loop_eq [OF assms] by (simp add: convert_from_fp_buf_def convert_from_fp_def)

subsection \<open>Witnesses\<close>

theorem convert_line_buf_refines_witness:
  "valid_config \<lparr>delimiter = COMMA, quote_style = QS_MINIMUM, r_replacement = None, n_replacement = None\<rparr> \<and> field_buf initial_state 0 = QUOTE \<and> NUL \<notin> set (''a,b'' @ [LF]) \<and>
   (\<exists>st' m. convert_line \<lparr>delimiter = COMMA, quote_style = QS_MINIMUM, r_replacement = None, n_replacement = None\<rparr> (''a,b'' @ [LF]) initial_state = Some (0, st') \<and>
      convert_line_buf \<lparr>delimiter = COMMA, quote_style = QS_MINIMUM, r_replacement = None, n_replacement = None\<rparr> ((''a,b'' @ [LF]) @ NUL # ''zz'') initial_state = Some (0, m @ ''zz'', st') \<and>
      length m = Suc (length (''a,b'' @ [LF])))"
  using convert_line_buf_refines [of "\<lparr>delimiter = COMMA, quote_style = QS_MINIMUM, r_replacement = None, n_replacement = None\<rparr>" initial_state "''a,b'' @ [LF]" "''zz''"]
  by (simp add: valid_config_def rule_ok_def initial_state_def initial_field_buf_def)

theorem replace_string_by_char_arr_in_place_witness:
  "[CHR 0x5C, CHR ''n''] \<noteq> [] \<and> NUL \<notin> set [CHR ''a'', CHR 0x5C, CHR ''n'', CHR ''b''] \<and>
   (\<exists>mid. replace_string_by_char_arr (''x'' @ [CHR ''a'', CHR 0x5C, CHR ''n'', CHR ''b''] @ NUL # ''q'') 1 [CHR 0x5C, CHR ''n''] LF =
      Some (''x'' @ [CHR ''a'', LF, CHR ''b''] @ NUL # mid @ ''q'', 1) \<and> length mid = 1)"
  using replace_string_by_char_arr_in_place [where pat = "[CHR 0x5C, CHR ''n'']"
      and c = "[CHR ''a'', CHR 0x5C, CHR ''n'', CHR ''b'']" and repl = LF and p = "''x''" and rest = "''q''"]
  by simp

theorem convert_from_fp_buf_refines_witness:
  "valid_config \<lparr>delimiter = COMMA, quote_style = QS_MINIMUM, r_replacement = None, n_replacement = None\<rparr> \<and> field_buf initial_state 0 = QUOTE \<and>
   length (replicate MAXLINELEN (CHR ''x'')) = MAXLINELEN \<and>
   convert_from_fp_buf \<lparr>delimiter = COMMA, quote_style = QS_MINIMUM, r_replacement = None, n_replacement = None\<rparr> \<lparr>pending = ''a,b'' @ [LF], at_end = END_OF_FILE, ferror_flag = False, feof_flag = False\<rparr> (replicate MAXLINELEN (CHR ''x'')) initial_state =
     convert_from_fp \<lparr>delimiter = COMMA, quote_style = QS_MINIMUM, r_replacement = None, n_replacement = None\<rparr> \<lparr>pending = ''a,b'' @ [LF], at_end = END_OF_FILE, ferror_flag = False, feof_flag = False\<rparr> initial_state"
  using convert_from_fp_buf_refines [of "\<lparr>delimiter = COMMA, quote_style = QS_MINIMUM, r_replacement = None, n_replacement = None\<rparr>" initial_state "replicate MAXLINELEN (CHR ''x'')" "\<lparr>pending = ''a,b'' @ [LF], at_end = END_OF_FILE, ferror_flag = False, feof_flag = False\<rparr>"]
  by (simp add: valid_config_def rule_ok_def initial_state_def initial_field_buf_def)

end
