(* ===== verification/DriverSteps.thy ===== *)
theory DriverSteps
  imports LineDriver "HOL-Library.Sublist"
begin

text \<open>
  The loop of \<open>convert_from_fp\<close> (lines 253--268) as a small-step state machine.  A
  configuration is either running, with the line counter, the content of the line
  buffer, the input stream and the converter state, or finished, with what
  \<open>convert_from_fp\<close> returns (or the \<open>errx\<close> exit) and the final state.  One step is
  one iteration of the loop: an \<open>fgets\<close> and either the return on a read error, the
  break at end of file followed by \<open>flush_output\<close>, the conversion of the line, or the
  \<open>errx\<close> exit on a non-zero return code.  The lemmas show that every run
  of the \<open>partial_function\<close> of \<open>LineDriver\<close> is a run of the machine (by fixpoint
  induction), and prove by rule induction on the machine the order in which the driver uses the sink: it only appends, and it flushes exactly
  once, as its last action, and only when the input ended normally.
\<close>

datatype driver_conf =
    Running int "byte list" instream csv_state
  | Finished driver_result csv_state

inductive driver_step :: "config \<Rightarrow> driver_conf \<Rightarrow> driver_conf \<Rightarrow> bool" for cfg :: config where
  step_error: "fgets MAXLINELEN fp = (None, fp') \<Longrightarrow> ferror_flag fp' \<Longrightarrow>
    driver_step cfg (Running n line fp st) (Finished (Returned (-1)) st)"
| step_eof: "fgets MAXLINELEN fp = (None, fp') \<Longrightarrow> \<not> ferror_flag fp' \<Longrightarrow> feof_flag fp' \<Longrightarrow>
    driver_step cfg (Running n line fp st) (Finished (Returned 0) (flush_output st))"
| step_line: "fgets MAXLINELEN fp = (res, fp') \<Longrightarrow>
    \<not> (res = None \<and> ferror_flag fp') \<Longrightarrow> \<not> (res = None \<and> feof_flag fp') \<Longrightarrow>
    l = (case res of Some l \<Rightarrow> l | None \<Rightarrow> line) \<Longrightarrow>
    convert_line cfg (cstr l) st = Some (0, st') \<Longrightarrow>
    driver_step cfg (Running n line fp st) (Running (n + 1) l fp' st')"
| step_errx: "fgets MAXLINELEN fp = (res, fp') \<Longrightarrow>
    \<not> (res = None \<and> ferror_flag fp') \<Longrightarrow> \<not> (res = None \<and> feof_flag fp') \<Longrightarrow>
    l = (case res of Some l \<Rightarrow> l | None \<Rightarrow> line) \<Longrightarrow>
    convert_line cfg (cstr l) st = Some (r, st') \<Longrightarrow> r \<noteq> 0 \<Longrightarrow>
    driver_step cfg (Running n line fp st) (Finished (Errx 100 n) st')"

inductive_cases driver_step_FinishedE [elim!]: "driver_step cfg (Finished r st) c"

text \<open>The sink discipline the driver keeps: in a running configuration nothing has been
  flushed and the output extends the initial one; a finished configuration is flushed
  exactly when the driver returned 0.\<close>

fun sink_ok :: "csv_state \<Rightarrow> driver_conf \<Rightarrow> bool" where
  "sink_ok st0 (Running n line fp st) =
     (\<not> flushed st \<and> field_buf st 0 = QUOTE \<and> prefix (out st0) (out st))"
| "sink_ok st0 (Finished r st) =
     ((flushed st \<longleftrightarrow> r = Returned 0) \<and> prefix (out st0) (out st))"

subsection \<open>Every run of the loop is a run of the machine\<close>

lemma run_driver_steps:
  assumes "convert_from_fp_loop cfg n line fp st = Some (r, st')"
  shows "(driver_step cfg)\<^sup>*\<^sup>* (Running n line fp st) (Finished r st')"
proof -
  have "(driver_step cfg)\<^sup>*\<^sup>* (Running n line fp st) (Finished (fst (r, st')) (snd (r, st')))"
    apply (rule convert_from_fp_loop.raw_induct
        [where P = "\<lambda>cfg n line fp st x. (driver_step cfg)\<^sup>*\<^sup>* (Running n line fp st) (Finished (fst x) (snd x))",
         OF _ assms])
    subgoal premises prems for f cfg n line fp st x
    proof -
      obtain res fp' where fg: "fgets MAXLINELEN fp = (res, fp')" by (cases "fgets MAXLINELEN fp")
      let ?l = "case res of Some l \<Rightarrow> l | None \<Rightarrow> line"
      note body = prems(2) [unfolded fg prod.case]
      show ?thesis
      proof (cases "res = None \<and> ferror_flag fp'")
        case True
        then show ?thesis using body step_error [of fp fp' cfg n line st] fg by auto
      next
        case ne: False
        show ?thesis
        proof (cases "res = None \<and> feof_flag fp'")
          case True
          then show ?thesis using body ne step_eof [of fp fp' cfg n line st] fg by auto
        next
          case nf: False
          have "convert_line cfg (cstr ?l) st \<noteq> None"
          proof
            assume "convert_line cfg (cstr ?l) st = None"
            then show False using body ne nf by (cases res) (simp_all add: Let_def)
          qed
          then obtain r1 st1 where cl: "convert_line cfg (cstr ?l) st = Some (r1, st1)" by auto
          show ?thesis
          proof (cases "r1 = 0")
            case True
            then have "f cfg (n + 1) ?l fp' st1 = Some x" using body ne nf cl by simp
            then have rest: "(driver_step cfg)\<^sup>*\<^sup>* (Running (n + 1) ?l fp' st1) (Finished (fst x) (snd x))"
              by (rule prems(1))
            have "driver_step cfg (Running n line fp st) (Running (n + 1) ?l fp' st1)"
              using step_line [OF fg ne nf refl] cl True by simp
            then show ?thesis using rest by (rule converse_rtranclp_into_rtranclp)
          next
            case False
            then have "x = (Errx 100 n, st1)" using body ne nf cl by simp
            then show ?thesis using step_errx [OF fg ne nf refl cl False, of n] by auto
          qed
        qed
      qed
    qed
    done
  then show ?thesis by simp
qed

subsection \<open>The sink discipline, by rule induction\<close>

lemma driver_step_sink:
  assumes cfg: "valid_config cfg"
  shows "driver_step cfg c c' \<Longrightarrow> sink_ok st0 c \<Longrightarrow> sink_ok st0 c'"
proof (induction rule: driver_step.induct)
  case (step_error fp fp' n line st)
  then show ?case by simp
next
  case (step_eof fp fp' n line st)
  then show ?case by (simp add: flush_output_def)
next
  case (step_line fp res fp' l line st st' n)
  obtain st2 where c: "convert_line_loop cfg (cstr l) st = Some st2" and o: "prefix (out st) (out st2)"
    and f: "flushed st2 = flushed st" and b: "field_buf st2 0 = QUOTE"
    using convert_line_loop_result [OF cfg, of st "cstr l"] step_line.prems by (auto simp: prefix_def)
  have "st' = st2" using step_line.hyps(5) c by (simp add: convert_line_def)
  then show ?case using step_line.prems o f b by (auto intro: prefix_order.trans)
next
  case (step_errx fp res fp' l line st r st' n)
  then show ?case by (auto dest: convert_line_retcode)
qed

lemma driver_steps_sink:
  assumes "valid_config cfg" and "(driver_step cfg)\<^sup>*\<^sup>* c c'" and "sink_ok st0 c"
  shows "sink_ok st0 c'"
  using assms(2,3) by induction (auto intro: driver_step_sink [OF assms(1)])

lemma convert_from_fp_loop_returns:
  assumes "valid_config cfg" and "field_buf st 0 = QUOTE"
  shows "\<exists>r st'. convert_from_fp_loop cfg n line fp st = Some (r, st')"
  using run_lines_result [OF assms, of "lines_read (MAXLINELEN - 2) (pending fp) (at_end fp)"]
  by (auto simp: convert_from_fp_loop_lines)

text \<open>C30: the driver uses the sink in order: for a valid configuration and a sink not
  yet flushed, \<open>convert_from_fp\<close> returns, everything written before stays a prefix of
  the output, and the sink is flushed at the end exactly when the driver returns 0 (at
  end of file), never on the read-error return.\<close>

theorem convert_from_fp_sink_order:
  assumes "valid_config cfg" and "field_buf st 0 = QUOTE" and "\<not> flushed st"
  shows "\<exists>r st'. convert_from_fp cfg fp st = Some (r, st') \<and>
           (flushed st' \<longleftrightarrow> r = Returned 0) \<and> prefix (out st) (out st')"
proof -
  obtain r st' where run: "convert_from_fp cfg fp st = Some (r, st')"
    using convert_from_fp_loop_returns [OF assms(1,2), of 1 "[]" fp] by (auto simp: convert_from_fp_def)
  have "(driver_step cfg)\<^sup>*\<^sup>* (Running 1 [] fp st) (Finished r st')"
    using run_driver_steps [of cfg 1 "[]" fp st r st'] run by (simp add: convert_from_fp_def)
  then have "sink_ok st (Finished r st')"
    by (rule driver_steps_sink [OF assms(1)]) (simp add: assms(2,3))
  with run show ?thesis by auto
qed

subsection \<open>Witnesses\<close>

theorem convert_from_fp_sink_order_witness:
  "valid_config \<lparr>delimiter = COMMA, quote_style = QS_MINIMUM, r_replacement = None, n_replacement = None\<rparr> \<and> field_buf initial_state 0 = QUOTE \<and> \<not> flushed initial_state \<and>
   (\<exists>r st'. convert_from_fp \<lparr>delimiter = COMMA, quote_style = QS_MINIMUM, r_replacement = None, n_replacement = None\<rparr> \<lparr>pending = ''a,b'' @ [LF], at_end = END_OF_FILE, ferror_flag = False, feof_flag = False\<rparr> initial_state = Some (r, st') \<and>
      (flushed st' \<longleftrightarrow> r = Returned 0) \<and> prefix (out initial_state) (out st'))"
  using convert_from_fp_sink_order [of "\<lparr>delimiter = COMMA, quote_style = QS_MINIMUM, r_replacement = None, n_replacement = None\<rparr>" initial_state "\<lparr>pending = ''a,b'' @ [LF], at_end = END_OF_FILE, ferror_flag = False, feof_flag = False\<rparr>"]
  by (simp add: valid_config_def rule_ok_def initial_state_def initial_field_buf_def)

end
