(* ===== verification/CounterWidth.thy ===== *)
theory CounterWidth
  imports ReplaceString "HOL-Library.Word"
begin

text \<open>
  The machine width of the replacement counter.  \<open>replace_string_by_char\<close> counts its
  replacements in an \<open>int\<close> (line 64) and \<open>convert_field\<close> tests \<open>count > 0\<close> (lines 116
  and 124) to decide whether to re-measure the field and force quoting.  Here the
  counter is a 32-bit word, incremented with wrap-around and compared as a signed
  value, as a two's-complement machine does; \<open>replace_loop_int\<close> is the loop of
  \<open>ReplaceString\<close> with that counter.  The lemmas show that the counter holds the
  number of replacements modulo \<open>2^32\<close>, and that for a field shorter than the line
  buffer it never overflows, so the signed test is exactly ``some replacement
  happened''.
\<close>

partial_function (option) replace_loop_int ::
  "cstring \<Rightarrow> byte \<Rightarrow> cstring \<Rightarrow> nat \<Rightarrow> 32 word \<Rightarrow> (cstring \<times> 32 word) option" where
  "replace_loop_int pattern repl big c count =
     (case strstr (drop c big) pattern of
        None \<Rightarrow> Some (big, count)
      | Some k \<Rightarrow>
          replace_loop_int pattern repl (replace_at big (c + k) (length pattern) repl)
            (Suc (c + k)) (count + 1))"

declare replace_loop_int.simps [code]

definition replace_string_by_char_int :: "cstring \<Rightarrow> cstring \<Rightarrow> byte \<Rightarrow> (cstring \<times> 32 word) option" where
  "replace_string_by_char_int big pattern repl = replace_loop_int pattern repl big 0 0"

text \<open>The test \<open>count > 0\<close> on the C \<open>int\<close>.\<close>

definition count_positive :: "32 word \<Rightarrow> bool" where
  "count_positive count = (0 < sint count)"

lemma replace_loop_int_correct:
  assumes "pat \<noteq> []"
  shows "replace_loop_int pat repl (p @ s) (length p) w =
           Some (p @ replace_all pat repl s, w + word_of_nat (count_occ pat s))"
proof (induction "length s" arbitrary: p s w rule: less_induct)
  case less
  show ?case
  proof (cases "strstr s pat")
    case None
    then show ?thesis
      using strstr_None_replace_all [OF None] by (simp add: replace_loop_int.simps)
  next
    case (Some k)
    let ?s' = "drop (k + length pat) s"
    let ?p' = "p @ take k s @ [repl]"
    have le: "k + length pat \<le> length s" using strstr_nonempty_lt [OF Some assms] .
    have step: "replace_at (p @ s) (length p + k) (length pat) repl = ?p' @ ?s'"
      using le assms by (simp add: replace_at_split)
    have shorter: "length ?s' < length s" using le assms by (cases pat) auto
    have len: "Suc (length p + k) = length ?p'" using le by simp
    have "replace_loop_int pat repl (p @ s) (length p) w =
            replace_loop_int pat repl (?p' @ ?s') (length ?p') (w + 1)"
      using le by (simp add: replace_loop_int.simps [of pat repl "p @ s"] Some step len [symmetric])
    also have "\<dots> = Some (?p' @ replace_all pat repl ?s', w + 1 + word_of_nat (count_occ pat ?s'))"
      using less shorter by blast
    also have "\<dots> = Some (p @ replace_all pat repl s, w + word_of_nat (count_occ pat s))"
      using strstr_Some_replace_all [OF Some assms, of repl] by (simp add: algebra_simps)
    finally show ?thesis .
  qed
qed

lemma sint_word_of_nat_small: "n < 2 ^ 31 \<Longrightarrow> sint (word_of_nat n :: 32 word) = int n"
  by (simp add: signed_of_nat signed_take_bit_int_eq_self)

lemma sint_32_le: "sint (i :: 32 word) \<le> 2147483647"
  using sint_less [of i] by simp

lemma sint_incr: "sint i \<noteq> 2147483647 \<Longrightarrow> sint (i + 1 :: 32 word) = sint i + 1"
proof -
  assume ne: "sint i \<noteq> 2147483647"
  have lo: "- (2 ^ 31) \<le> sint i" using sint_ge [of i] by simp
  have "sint i < 2147483647" using ne sint_32_le [of i] by simp
  then show ?thesis
    using lo by (simp add: sint_word_ariths signed_take_bit_int_eq_self)
qed

text \<open>C31: the \<open>int\<close> replacement counter does not overflow: for a non-empty pattern and
  a field shorter than the line buffer, the 32-bit counter ends holding exactly the
  number of replacements as a signed value, and the test \<open>count > 0\<close> holds exactly
  when some replacement was made.\<close>

theorem replace_count_no_overflow:
  assumes "pattern \<noteq> []" and "length big < MAXLINELEN"
  shows "\<exists>count. replace_string_by_char_int big pattern repl = Some (replace_all pattern repl big, count) \<and>
           sint count = int (count_occ pattern big) \<and>
           (count_positive count \<longleftrightarrow> 0 < count_occ pattern big)"
proof -
  have "count_occ pattern big < 2 ^ 31"
    using count_occ_le_length [of pattern big] assms(2) by (simp add: MAXLINELEN_def)
  then have s: "sint (word_of_nat (count_occ pattern big) :: 32 word) = int (count_occ pattern big)"
    by (rule sint_word_of_nat_small)
  show ?thesis
    using replace_loop_int_correct [OF assms(1), of repl "[]" big 0] s
    by (simp add: replace_string_by_char_int_def count_positive_def)
qed

theorem replace_count_no_overflow_witness:
  "[CHR 0x5C, CHR ''n''] \<noteq> [] \<and> length [CHR ''a'', CHR 0x5C, CHR ''n'', CHR ''b''] < MAXLINELEN \<and>
   (\<exists>count. replace_string_by_char_int [CHR ''a'', CHR 0x5C, CHR ''n'', CHR ''b''] [CHR 0x5C, CHR ''n''] LF =
              Some ([CHR ''a'', LF, CHR ''b''], count) \<and> sint count = 1 \<and> count_positive count)"
  using replace_count_no_overflow [of "[CHR 0x5C, CHR ''n'']" "[CHR ''a'', CHR 0x5C, CHR ''n'', CHR ''b'']" LF]
  by (simp add: MAXLINELEN_def)

end
