(* ===== verification/LineCounter.thy ===== *)
theory LineCounter
  imports LineDriver CounterWidth
begin

text \<open>
  The width of the line counter of \<open>convert_from_fp\<close>.  \<open>lineno\<close> is a C \<open>int\<close>
  (line 250), set to 1 and incremented after each converted line (line 267); it is only
  read by the \<open>errx\<close> message of line 264.  Here it is a 32-bit word read with \<open>sint\<close>,
  and \<open>lineno++\<close> is \<open>int_incr\<close>: the increment of \<open>INT_MAX\<close> is signed overflow, which
  C leaves undefined, so the model ends there with the error \<open>SIGNED_OVERFLOW\<close> instead
  of choosing a wrapped value.  \<open>convert_from_fp_loop_w\<close> is the loop of \<open>LineDriver\<close>
  with that counter.  The lemmas show that on an input of fewer than \<open>INT_MAX\<close> lines
  the counter stays in range and the driver computes what the unbounded model
  computes, and that on an input of \<open>INT_MAX\<close> lines or more the increment overflows.
\<close>

datatype c_error = SIGNED_OVERFLOW

text \<open>\<open>lineno++\<close> on a C \<open>int\<close>: undefined at \<open>INT_MAX = 2^31 - 1\<close>.\<close>

definition int_incr :: "32 word \<Rightarrow> c_error + 32 word" where
  "int_incr i = (if sint i = 2147483647 then Inl SIGNED_OVERFLOW else Inr (i + 1))"

text \<open>Lines 253--268 with the 32-bit counter.\<close>

partial_function (option) convert_from_fp_loop_w ::
  "config \<Rightarrow> 32 word \<Rightarrow> byte list \<Rightarrow> instream \<Rightarrow> csv_state \<Rightarrow> (c_error + driver_result \<times> csv_state) option" where
  "convert_from_fp_loop_w cfg lineno line fp st =
     (case fgets MAXLINELEN fp of
        (res, fp) \<Rightarrow>
          (if res = None \<and> ferror_flag fp then Some (Inr (Returned (-1), st))
           else if res = None \<and> feof_flag fp then Some (Inr (Returned 0, flush_output st))
           else
             (let line = (case res of Some l \<Rightarrow> l | None \<Rightarrow> line)
              in do {
                (retcode, st) \<leftarrow> convert_line cfg (cstr line) st;
                if retcode \<noteq> 0 then Some (Inr (Errx 100 (sint lineno), st))
                else (case int_incr lineno of
                        Inl e \<Rightarrow> Some (Inl e)
                      | Inr lineno \<Rightarrow> convert_from_fp_loop_w cfg lineno line fp st)
              })))"

declare convert_from_fp_loop_w.simps [code]

definition convert_from_fp_w :: "config \<Rightarrow> instream \<Rightarrow> csv_state \<Rightarrow> (c_error + driver_result \<times> csv_state) option" where
  "convert_from_fp_w cfg fp st = convert_from_fp_loop_w cfg 1 [] fp st"

subsection \<open>The counter and the unbounded model\<close>

lemma convert_from_fp_loop_w_no_overflow:
  "lines_read (MAXLINELEN - 2) (pending fp) (at_end fp) = ls \<Longrightarrow>
   sint w + int (length ls) \<le> 2147483647 \<Longrightarrow>
   convert_from_fp_loop_w cfg w line fp st = map_option Inr (convert_from_fp_loop cfg (sint w) line fp st)"
proof (induction ls arbitrary: w line fp st)
  case Nil
  then show ?case
    by (cases "at_end fp")
       (simp_all add: fgets_lines_read_Nil convert_from_fp_loop_w.simps [of cfg w line fp]
                      convert_from_fp_loop.simps [of cfg "sint w" line fp])
next
  case (Cons l ls)
  obtain fp' where fg: "fgets MAXLINELEN fp = (Some l, fp')"
    and lr: "lines_read (MAXLINELEN - 2) (pending fp') (at_end fp') = ls"
    using fgets_lines_read_Cons [OF Cons.prems(1)] by blast
  have ne: "sint w \<noteq> 2147483647" and bound: "sint (w + 1) + int (length ls) \<le> 2147483647"
    using Cons.prems(2) sint_incr [of w] by auto
  show ?case
  proof (cases "convert_line cfg (cstr l) st")
    case None
    then show ?thesis
      using fg by (simp add: convert_from_fp_loop_w.simps [of cfg w line fp]
                             convert_from_fp_loop.simps [of cfg "sint w" line fp])
  next
    case (Some rs)
    then obtain st1 where c1: "convert_line cfg (cstr l) st = Some (0, st1)"
      using convert_line_retcode by (cases rs) fastforce
    show ?thesis
      using fg c1 ne Cons.IH [OF lr bound, of l st1] sint_incr [OF ne]
      by (simp add: convert_from_fp_loop_w.simps [of cfg w line fp] int_incr_def
                    convert_from_fp_loop.simps [of cfg "sint w" line fp])
  qed
qed

lemma convert_from_fp_loop_w_overflow:
  assumes cfg: "valid_config cfg"
  shows "lines_read (MAXLINELEN - 2) (pending fp) (at_end fp) = ls \<Longrightarrow> field_buf st 0 = QUOTE \<Longrightarrow>
         2147483647 < sint w + int (length ls) \<Longrightarrow>
         convert_from_fp_loop_w cfg w line fp st = Some (Inl SIGNED_OVERFLOW)"
proof (induction ls arbitrary: w line fp st)
  case Nil
  then show ?case using sint_32_le [of w] by simp
next
  case (Cons l ls)
  obtain fp' where fg: "fgets MAXLINELEN fp = (Some l, fp')"
    and lr: "lines_read (MAXLINELEN - 2) (pending fp') (at_end fp') = ls"
    using fgets_lines_read_Cons [OF Cons.prems(1)] by blast
  obtain st1 where c1: "convert_line cfg (cstr l) st = Some (0, st1)" and b1: "field_buf st1 0 = QUOTE"
    using convert_line_loop_result [OF cfg Cons.prems(2), of "cstr l"] by (auto simp: convert_line_def)
  show ?case
  proof (cases "sint w = 2147483647")
    case True
    then show ?thesis
      using fg c1 by (simp add: convert_from_fp_loop_w.simps [of cfg w line fp] int_incr_def)
  next
    case False
    then have "2147483647 < sint (w + 1) + int (length ls)"
      using Cons.prems(3) sint_incr [OF False] by simp
    then show ?thesis
      using fg c1 False Cons.IH [OF lr b1] by (simp add: convert_from_fp_loop_w.simps [of cfg w line fp] int_incr_def)
  qed
qed


text \<open>C35: the \<open>int\<close> line counter does not overflow on an input of fewer than
  \<open>INT_MAX\<close> lines: the driver with the 32-bit counter returns exactly what the
  unbounded model returns.\<close>

theorem convert_from_fp_lineno_bound:
  assumes "int (length (lines_read (MAXLINELEN - 2) (pending fp) (at_end fp))) < 2147483647"
  shows "convert_from_fp_w cfg fp st = map_option Inr (convert_from_fp cfg fp st)"
  using convert_from_fp_loop_w_no_overflow [where fp = fp and w = 1 and line = "[]", OF refl] assms
  by (simp add: convert_from_fp_w_def convert_from_fp_def)

text \<open>C36: on an input of \<open>INT_MAX\<close> lines or more the driver reaches \<open>lineno++\<close>
  with \<open>lineno = INT_MAX\<close> after converting line \<open>INT_MAX\<close>, a signed overflow.\<close>

theorem convert_from_fp_lineno_overflow:
  assumes "valid_config cfg" and "field_buf st 0 = QUOTE"
    and "2147483647 \<le> length (lines_read (MAXLINELEN - 2) (pending fp) (at_end fp))"
  shows "convert_from_fp_w cfg fp st = Some (Inl SIGNED_OVERFLOW)"
  using convert_from_fp_loop_w_overflow [OF assms(1), where fp = fp and w = 1 and line = "[]", OF refl assms(2)] assms(3)
  by (simp add: convert_from_fp_w_def)

theorem convert_from_fp_lineno_bound_witness:
  "int (length (lines_read (MAXLINELEN - 2) [CHR ''a'', LF] END_OF_FILE)) < 2147483647 \<and>
   convert_from_fp_w \<lparr>delimiter = COMMA, quote_style = QS_MINIMUM, r_replacement = None, n_replacement = None\<rparr>
     \<lparr>pending = [CHR ''a'', LF], at_end = END_OF_FILE, ferror_flag = False, feof_flag = False\<rparr> initial_state =
   map_option Inr (convert_from_fp \<lparr>delimiter = COMMA, quote_style = QS_MINIMUM, r_replacement = None, n_replacement = None\<rparr>
     \<lparr>pending = [CHR ''a'', LF], at_end = END_OF_FILE, ferror_flag = False, feof_flag = False\<rparr> initial_state)"
proof -
  have "lines_read (MAXLINELEN - 2) [CHR ''a'', LF] END_OF_FILE = [[CHR ''a'', LF]]"
    using lines_read_single [of "[CHR ''a'']" "MAXLINELEN - 2" END_OF_FILE] by (simp add: MAXLINELEN_def)
  then show ?thesis
    using convert_from_fp_lineno_bound [of "\<lparr>pending = [CHR ''a'', LF], at_end = END_OF_FILE, ferror_flag = False, feof_flag = False\<rparr>"
      "\<lparr>delimiter = COMMA, quote_style = QS_MINIMUM, r_replacement = None, n_replacement = None\<rparr>" initial_state]
    by simp
qed

theorem convert_from_fp_lineno_overflow_witness:
  "valid_config \<lparr>delimiter = COMMA, quote_style = QS_MINIMUM, r_replacement = None, n_replacement = None\<rparr> \<and>
   field_buf initial_state 0 = QUOTE \<and>
   2147483647 \<le> length (lines_read (MAXLINELEN - 2) (replicate 2147483647 LF) END_OF_FILE) \<and>
   convert_from_fp_w \<lparr>delimiter = COMMA, quote_style = QS_MINIMUM, r_replacement = None, n_replacement = None\<rparr>
     \<lparr>pending = replicate 2147483647 LF, at_end = END_OF_FILE, ferror_flag = False, feof_flag = False\<rparr> initial_state =
   Some (Inl SIGNED_OVERFLOW)"
proof -
  have lr: "lines_read (MAXLINELEN - 2) (replicate 2147483647 LF) END_OF_FILE = replicate 2147483647 [LF]"
    using lines_read_blank_lines [of "MAXLINELEN - 3"] by (simp add: MAXLINELEN_def)
  have v: "valid_config \<lparr>delimiter = COMMA, quote_style = QS_MINIMUM, r_replacement = None, n_replacement = None\<rparr>"
    by (simp add: valid_config_def rule_ok_def)
  have b: "field_buf initial_state 0 = QUOTE"
    by (simp add: initial_state_def initial_field_buf_def)
  show ?thesis
    using convert_from_fp_lineno_overflow [OF v b, of "\<lparr>pending = replicate 2147483647 LF, at_end = END_OF_FILE, ferror_flag = False, feof_flag = False\<rparr>"]
      lr v b by simp
qed

end
