(* ===== verification/Spec2Isabelle.thy ===== *)
theory Spec2Isabelle
  imports CsvWriter CsvReader LineBuffer DriverSteps LineCounter
begin

text \<open>
  \<^bold>\<open>A verification development for uncsv.\<close>
  The program (\<open>src/src/csv.c\<close>) converts delimiter-separated lines into
  RFC-4180-style CSV.  Its parts, leaf first, and the theory that models each:

  \<^item> Pattern substitution, \<open>replace_string_by_char\<close> (lines 60--85), theory
    \<open>ReplaceString\<close>: the \<open>strstr\<close>/store/\<open>memmove\<close> loop over the NUL-terminated field
    is \<open>replace_loop\<close> (a \<open>partial_function (option)\<close>; \<open>None\<close> is the endless loop of
    an empty pattern), \<open>replace_at\<close> is one store and \<open>memmove\<close>.  The reference is
    \<open>replace_all\<close>/\<open>count_occ\<close>.
  \<^item> Field encoder, \<open>convert_field\<close> (lines 99--188), theory \<open>FieldEncoder\<close>: one
    definition per step of the code: \<open>apply_replacement\<close> (the two optional rules),
    \<open>escape_loop\<close> (the \<open>strchr\<close>/\<open>memcpy\<close> quote-doubling loop), \<open>quote_policy\<close> (the
    switch), \<open>decide_quoting\<close> (switch and comma test), \<open>finish_field\<close> (closing quote,
    write from offset 0 or 1, \<open>start_of_line\<close> cleared), composed by \<open>convert_field\<close>.
    The static scratch buffer is part of the state, as a byte array (\<open>bytearray\<close>),
    so that what an earlier field leaves in it is visible to the next one.
  \<^item> Line splitter, \<open>convert_line\<close> (lines 198--239), theory \<open>LineSplitter\<close>:
    \<open>convert_line_loop\<close> is the \<open>for (;;)\<close> over the C string of the line; the NUL
    sentinel written at the delimiter or terminator makes the field the slice
    \<open>take f cur\<close>, and the restored terminator and everything after it is \<open>drop f cur\<close>.
  \<^item> Line driver, \<open>convert_from_fp\<close> (lines 247--273), theory \<open>LineDriver\<close>: the
    \<open>fgets\<close>/\<open>ferror\<close>/\<open>feof\<close> protocol over an input stream that ends in end-of-file or
    a read error, the \<open>errx\<close> exit, \<open>flush_output\<close>.
  \<^item> The same code on its buffers, theory \<open>LineBuffer\<close>: the line array as a byte
    list with pointers as indices; \<open>fgets_buf\<close> stores a line and its NUL into it,
    \<open>convert_line_arr\<close> writes the NUL sentinels and restores the terminator in it,
    \<open>convert_field_arr\<close> and \<open>replace_loop_arr\<close> rewrite the field in place with
    \<open>memmove\<close> (\<open>replace_at_arr\<close>), and \<open>convert_from_fp_buf\<close> is the driver over the
    array.  This is the level at which aliasing matters: the substitutions and
    sentinels write into the same array the splitter reads the next fields from.
  \<^item> The driver loop as a state machine, theory \<open>DriverSteps\<close>: \<open>driver_step\<close> is one
    iteration of the loop of lines 253--268 (an \<open>fgets\<close> and the read-error return,
    the end-of-file break and flush, the conversion of a line, or the \<open>errx\<close> exit) on
    configurations \<open>driver_conf\<close>, running or finished.
  \<^item> Machine width of the replacement counter, theory \<open>CounterWidth\<close>: the loop of
    \<open>replace_string_by_char\<close> with its \<open>int count\<close> as a 32-bit word
    (\<open>replace_loop_int\<close>) and the signed test \<open>count > 0\<close> of \<open>convert_field\<close>
    (\<open>count_positive\<close>).
  \<^item> Machine width of the line counter, theory \<open>LineCounter\<close>: the driver loop with
    \<open>int lineno\<close> (lines 250 and 267) as a 32-bit word (\<open>convert_from_fp_loop_w\<close>),
    where \<open>lineno++\<close> at \<open>INT_MAX\<close> is the error \<open>SIGNED_OVERFLOW\<close> (\<open>int_incr\<close>):
    C leaves signed overflow undefined, so the model stops there instead of wrapping.
  \<^item> Global state and configuration, theory \<open>CsvState\<close>: the \<open>extern\<close> configuration
    globals (lines 35--38) as the record \<open>config\<close>; \<open>start_of_line\<close> (line 39), the
    scratch buffer (line 102) and the output sink as the record \<open>csv_state\<close>.  The
    sink functions (declared at lines 42--44, defined outside \<open>src/\<close>) append to
    \<open>out\<close> and set \<open>flushed\<close>.  \<open>usage\<close> (lines 47--53) is the synopsis it prints and its
    exit status.
  \<^item> Shared vocabulary, theory \<open>Prelude\<close>: the byte constants, \<open>MAXLINELEN\<close> and
    \<open>MAXFIELDLEN\<close>, models of the C library primitives on C strings (\<open>strchr\<close>,
    \<open>strpbrk\<close>, \<open>strstr\<close>, \<open>cstr\<close>, \<open>memmove\<close>) and of a fixed byte array (\<open>buf_write\<close>,
    \<open>buf_read\<close>), with the list and option lemmas the components share.
  \<^item> Abstract specifications: theory \<open>CsvReader\<close>, an RFC-4180 record reader the
    output is read back with; theory \<open>CsvWriter\<close>, an RFC-4180 record writer
    (\<open>writer_step\<close>, an \<open>inductive\<close> relation over the text written and the start-of-record
    flag, nondeterministic in how a field is encoded) that the converter refines.

  The components interact by calls and through the shared state: the driver calls
  the splitter on each line, the splitter calls the encoder on each field, the
  encoder calls the substitution; all write to the sink, and \<open>start_of_line\<close> and the
  scratch buffer carry information from one call to the next.  Every function that
  may not return is a \<open>partial_function (option)\<close>, and each has a theorem that it
  returns under the conditions the program meets (\<open>valid_config\<close>: a non-NUL
  delimiter and non-empty replacement patterns) and one that it does not otherwise.

  \<^bold>\<open>What the lemmas show.\<close>
  \<open>ReplaceString\<close>: the in-place loop computes the reference replacement and count
  for every non-empty pattern (by strong induction on the unsearched suffix) and
  diverges for the empty one (by the fixpoint induction of the partial function);
  the string it leaves is shorter by the pattern length minus one per replacement.
  \<open>FieldEncoder\<close>: the escaping loop equals the byte-at-a-time loop \<open>escape_ref\<close> that
  the comment of lines 95--97 says it replaces, and the quote-doubling
  \<open>escape_quotes\<close>; the decision of the switch and the comma test is \<open>needs_quotes\<close>;
  hence \<open>convert_field_result\<close>: the exact bytes written (\<open>field_output\<close>), the scratch
  buffer after the call, and the stale byte at offset 1 (\<open>next_stale\<close>) that the next
  field's border-space test reads.  Corollaries: quote count, identity under the
  minimum policy, empty and border-space fields, forced quoting after a replacement,
  and that no write reaches \<open>MAXFIELDLEN\<close>.
  \<open>LineSplitter\<close>: \<open>convert_line_loop_result\<close>, the bytes written for a line in terms
  of \<open>split_on\<close>, \<open>line_fields\<close> and \<open>line_terminator\<close>, threading \<open>start_of_line\<close> and
  the stale byte; the terminator kept as it is; divergence for a NUL delimiter; the
  verbatim tail after a bare CR.
  \<open>LineDriver\<close>: the loop equals \<open>run_lines\<close> over \<open>lines_read\<close>, the chunks that
  \<open>fgets\<close> delivers (for every configuration); the output and return value at end of
  file and on a read error; every complete line is written whatever follows it; the
  \<open>errx\<close> exit is unreachable.  The states the converter passes through are the
  \<open>inductive\<close> relation \<open>reachable\<close>; by rule induction every reachable state keeps the
  scratch-buffer invariant \<open>buf_inv\<close>.
  \<open>LineBuffer\<close>: each in-place step keeps the buffer in the shape
  \<open>p @ field @ NUL # mid @ rest\<close> with the field no longer than before, so nothing before
  the field or after its original NUL changes; hence the splitter on the array
  computes exactly the slice model's state, and the driver on its array equals the
  stream-level driver, whatever the array held before.
  \<open>DriverSteps\<close>: every run of the loop is a run of the machine (fixpoint induction
  on the partial function); by rule induction every reachable configuration keeps the
  sink discipline \<open>sink_ok\<close>: output only grows, nothing is flushed while running, and
  the end is flushed exactly on return 0.
  \<open>LineCounter\<close>: on an input of fewer than \<open>INT_MAX\<close> lines the 32-bit counter driver
  computes what the unbounded one does (induction on the lines \<open>fgets\<close> delivers,
  with \<open>sint (w + 1) = sint w + 1\<close> below \<open>INT_MAX\<close>); on \<open>INT_MAX\<close> lines or more it
  reaches the overflow.
  \<open>CsvWriter\<close>: every field written is an RFC-4180 encoding of its content; the
  converter's state, abstracted to the text and the start-of-record flag, moves by
  writer steps, one per field and one per terminator, for a line and for a whole run
  of the driver.
  This theory: the roundtrips (the record bytes of a converted line, and the records
  of a whole file of lines, read back as the fields), and the boundary behaviours of
  the whole converter on long lines, embedded NUL bytes and CR line endings, each for
  every input of its shape; the empty input and the empty line; and that an empty
  replacement pattern, which nothing in \<open>csv.c\<close> rejects, makes the whole driver hang
  on the first line (the divergence of \<open>ReplaceString\<close> carried through the encoder,
  the splitter and the driver); and that, outside the border-space policy, what the
  driver writes does not depend on what earlier runs left in the scratch buffer.

  \<^bold>\<open>Bounds.\<close>  The line buffer has \<open>MAXLINELEN\<close> = 65536 bytes, so \<open>fgets\<close> returns at
  most 65535 bytes (\<open>lines_read (MAXLINELEN - 2)\<close>), and a line body of at most
  65534 bytes is read whole with its line feed; the encoder writes at most
  \<open>2 len + 2\<close> bytes of its \<open>MAXFIELDLEN\<close> = 131074-byte buffer.  No fuel is used: the
  loops are \<open>function\<close>s with measures (the escaping loop, \<open>lines_read\<close>) or partial
  functions with totality theorems.  Sizes are \<open>nat\<close>: the \<open>size_t\<close> subtractions of
  the code take a smaller value from a larger one (\<open>len -= l\<close> runs with \<open>len\<close> the
  length of the unread field, as \<open>escape_loop_correct\<close> carries it, and \<open>l\<close> at most
  that; \<open>f - cur\<close> is an index found in the string at \<open>cur\<close>), so truncated
  subtraction agrees with the machine's; the replacement counter (\<open>int count\<close>) is bounded by the field length, so as a
  32-bit signed word it holds the exact count (\<open>CounterWidth\<close>; overflow is modelled
  as two's-complement wrap-around, which the bound shows never happens).
  \<open>lineno\<close> only reaches the unreachable \<open>errx\<close>, but its increment is executed after
  every line, so it overflows on inputs of \<open>2^31 - 1\<close> lines (\<open>LineCounter\<close>).

  \<^bold>\<open>Not modelled.\<close>  The command-line front end that parses the options, sets the
  configuration globals and opens the files: it is not in \<open>src/\<close> and the spec
  excludes it, so nothing of it can be modelled from the code; \<open>config\<close> stands for
  its result and \<open>valid_config\<close> for what the converter needs of it.  The sink's
  buffering (an opaque append; its functions are defined outside \<open>src/\<close>); the C
  library itself, whose functions are modelled by their documented behaviour on
  NUL-terminated strings.  The position of a read error within the input is modelled
  at the end of the readable bytes.  The \<open>size_t\<close> lengths stay \<open>nat\<close>: they are
  bounded by \<open>MAXFIELDLEN\<close>, far below \<open>2^64\<close>, and the subtractions are shown above
  never to go below zero.  Every function of \<open>csv.c\<close> is modelled; the lines the
  map leaves out are comments, includes and prototypes.
\<close>

text \<open>C1: the converter's output is CSV that reads back as its input: for a valid
  configuration, a line converted at the start of a record is written as record bytes
  followed by the line's terminator, and an RFC-4180 reader recovers from those bytes
  exactly the line's fields after the replacement rules, whatever the quoting style.\<close>

theorem convert_line_csv_roundtrip:
  assumes "valid_config cfg" and "field_buf st 0 = QUOTE" and "start_of_line st"
  shows "\<exists>st' rec. convert_line cfg line st = Some (0, st') \<and>
           out st' = out st @ rec @ line_terminator (delimiter cfg) line \<and>
           parse_record rec = Some (map (\<lambda>c. fst (field_content cfg c)) (line_fields (delimiter cfg) line))"
proof -
  obtain st' where run: "convert_line_loop cfg line st = Some st'"
    and o: "out st' = out st @ fst (fields_output cfg True (field_buf st 1) (line_fields (delimiter cfg) line))
                           @ line_terminator (delimiter cfg) line"
    using convert_line_loop_result [OF assms(1,2), of line] assms(3) by auto
  have "parse_record (fst (fields_output cfg True (field_buf st 1) (line_fields (delimiter cfg) line)))
          = Some (map (\<lambda>c. fst (field_content cfg c)) (line_fields (delimiter cfg) line))"
    by (rule parse_fields_output [OF line_fields_nonempty])
  with run o show ?thesis by (auto simp: convert_line_def)
qed

theorem convert_line_csv_roundtrip_witness:
  "valid_config \<lparr>delimiter = TAB, quote_style = QS_ALL_SPACES, r_replacement = None,
                 n_replacement = Some [CHR 0x5C, CHR ''n'']\<rparr>
   \<and> field_buf initial_state 0 = QUOTE \<and> start_of_line initial_state
   \<and> (\<exists>st' rec. convert_line \<lparr>delimiter = TAB, quote_style = QS_ALL_SPACES, r_replacement = None,
                                n_replacement = Some [CHR 0x5C, CHR ''n'']\<rparr>
                   (''a b'' @ [TAB] @ ''x'' @ [CHR 0x5C, CHR ''n''] @ ''y,\"z\"'' @ [LF]) initial_state = Some (0, st') \<and>
        out st' = out initial_state @ rec @ [LF] \<and>
        parse_record rec = Some [''a b'', ''x'' @ [LF] @ ''y,\"z\"''])"
  using convert_line_csv_roundtrip [of "\<lparr>delimiter = TAB, quote_style = QS_ALL_SPACES, r_replacement = None,
                 n_replacement = Some [CHR 0x5C, CHR ''n'']\<rparr>" initial_state
      "''a b'' @ [TAB] @ ''x'' @ [CHR 0x5C, CHR ''n''] @ ''y,\"z\"'' @ [LF]"]
  by (simp add: valid_config_def rule_ok_def initial_state_def initial_field_buf_def
      line_fields_def line_terminator_def is_eol_def field_content_def replace_rule_def)

subsection \<open>The whole program reads back\<close>

lemma cstr_no_nul: "NUL \<notin> set b \<Longrightarrow> cstr (b @ [LF]) = b @ [LF]"
  by (auto simp: cstr_def takeWhile_append2)

lemma lines_output_records:
  assumes "delimiter cfg \<noteq> CR" and "delimiter cfg \<noteq> LF"
    and "\<forall>b \<in> set bs. CR \<notin> set b \<and> LF \<notin> set b \<and> NUL \<notin> set b"
  shows "\<exists>recs. lines_output cfg True stale (map (\<lambda>b. b @ [LF]) bs) = concat (map (\<lambda>r. r @ [LF]) recs) \<and>
           list_all2 (\<lambda>r b. parse_record r = Some (map (\<lambda>c. fst (field_content cfg c)) (split_on (delimiter cfg) b)))
             recs bs"
  using assms(3)
proof (induction bs arbitrary: stale)
  case Nil
  then show ?case by simp
next
  case (Cons b bs)
  let ?d = "delimiter cfg"
  have b: "CR \<notin> set b" "LF \<notin> set b" "NUL \<notin> set b" using Cons.prems by auto
  have lf: "[LF] \<in> {[LF], [CR, LF], []}" by simp
  note parts = line_parts_terminated [OF b(1,2) assms(1,2) lf]
  obtain fo stale' where fo: "fields_output cfg True stale (split_on ?d b) = (fo, stale')"
    by (cases "fields_output cfg True stale (split_on ?d b)")
  obtain recs where r: "lines_output cfg True stale' (map (\<lambda>b. b @ [LF]) bs) = concat (map (\<lambda>r. r @ [LF]) recs)"
    and p: "list_all2 (\<lambda>r b. parse_record r = Some (map (\<lambda>c. fst (field_content cfg c)) (split_on ?d b))) recs bs"
    using Cons.IH [of stale'] Cons.prems by auto
  have pf: "parse_record fo = Some (map (\<lambda>c. fst (field_content cfg c)) (split_on ?d b))"
    using parse_fields_output [OF split_on_nonempty, of cfg stale ?d b] fo by simp
  have "lines_output cfg True stale (map (\<lambda>b. b @ [LF]) (b # bs)) = concat (map (\<lambda>r. r @ [LF]) (fo # recs))"
    using r fo by (simp add: cstr_no_nul [OF b(3)] parts)
  then show ?case using pf p by blast
qed

text \<open>C2: the whole program reads back: on a file of lines, each ended by a line feed,
  whose bodies fit the line buffer and hold no CR, LF or NUL, \<open>convert_from_fp\<close>
  returns 0 after flushing and writes one record per line, each followed by the line
  feed, and an RFC-4180 reader recovers from each record the fields of its line after
  the replacement rules.\<close>

theorem convert_from_fp_roundtrip:
  assumes "valid_config cfg" and "field_buf st 0 = QUOTE" and "start_of_line st"
    and "delimiter cfg \<noteq> CR" and "delimiter cfg \<noteq> LF"
    and "at_end fp = END_OF_FILE" and "pending fp = concat (map (\<lambda>b. b @ [LF]) bs)"
    and "\<forall>b \<in> set bs. CR \<notin> set b \<and> LF \<notin> set b \<and> NUL \<notin> set b \<and> length b \<le> MAXLINELEN - 2"
  shows "\<exists>st' recs. convert_from_fp cfg fp st = Some (Returned 0, st') \<and> flushed st' \<and>
           out st' = out st @ concat (map (\<lambda>r. r @ [LF]) recs) \<and>
           list_all2 (\<lambda>r b. parse_record r = Some (map (\<lambda>c. fst (field_content cfg c)) (split_on (delimiter cfg) b)))
             recs bs"
proof -
  have ls: "lines_read (MAXLINELEN - 2) (pending fp) END_OF_FILE = map (\<lambda>b. b @ [LF]) bs"
    using lines_read_append [of bs "MAXLINELEN - 2" "[]"] assms(7,8) by (simp add: lines_read_Nil)
  obtain recs where r: "lines_output cfg True (field_buf st 1) (map (\<lambda>b. b @ [LF]) bs) = concat (map (\<lambda>r. r @ [LF]) recs)"
    and p: "list_all2 (\<lambda>r b. parse_record r = Some (map (\<lambda>c. fst (field_content cfg c)) (split_on (delimiter cfg) b))) recs bs"
    using lines_output_records [OF assms(4,5), of bs "field_buf st 1"] assms(8) by auto
  obtain st' where run: "convert_from_fp cfg fp st = Some (Returned 0, st')" and fl: "flushed st'"
    and o: "out st' = out st @ lines_output cfg (start_of_line st) (field_buf st 1)
                                (lines_read (MAXLINELEN - 2) (pending fp) END_OF_FILE)"
    using convert_from_fp_eof [OF assms(1,2,6)] by blast
  show ?thesis using run fl o r p assms(3) ls by auto
qed

theorem convert_from_fp_roundtrip_witness:
  "valid_config \<lparr>delimiter = COMMA, quote_style = QS_MINIMUM, r_replacement = None, n_replacement = None\<rparr> \<and> field_buf initial_state 0 = QUOTE \<and> start_of_line initial_state \<and>
   delimiter \<lparr>delimiter = COMMA, quote_style = QS_MINIMUM, r_replacement = None, n_replacement = None\<rparr> \<noteq> CR \<and> delimiter \<lparr>delimiter = COMMA, quote_style = QS_MINIMUM, r_replacement = None, n_replacement = None\<rparr> \<noteq> LF \<and> at_end \<lparr>pending = ''a,b'' @ [LF] @ ''c'' @ [LF], at_end = END_OF_FILE, ferror_flag = False, feof_flag = False\<rparr> = END_OF_FILE \<and>
   pending \<lparr>pending = ''a,b'' @ [LF] @ ''c'' @ [LF], at_end = END_OF_FILE, ferror_flag = False, feof_flag = False\<rparr> = concat (map (\<lambda>b. b @ [LF]) [''a,b'', ''c'']) \<and>
   (\<exists>st' recs. convert_from_fp \<lparr>delimiter = COMMA, quote_style = QS_MINIMUM, r_replacement = None, n_replacement = None\<rparr> \<lparr>pending = ''a,b'' @ [LF] @ ''c'' @ [LF], at_end = END_OF_FILE, ferror_flag = False, feof_flag = False\<rparr> initial_state = Some (Returned 0, st') \<and> flushed st' \<and>
      out st' = concat (map (\<lambda>r. r @ [LF]) recs) \<and>
      list_all2 (\<lambda>r b. parse_record r = Some b) recs [[''a'', ''b''], [''c'']])"
  using convert_from_fp_roundtrip [of "\<lparr>delimiter = COMMA, quote_style = QS_MINIMUM, r_replacement = None, n_replacement = None\<rparr>" initial_state "\<lparr>pending = ''a,b'' @ [LF] @ ''c'' @ [LF], at_end = END_OF_FILE, ferror_flag = False, feof_flag = False\<rparr>" "[''a,b'', ''c'']"]
  by (simp add: valid_config_def rule_ok_def initial_state_def initial_field_buf_def MAXLINELEN_def
      field_content_def replace_rule_def list_all2_Cons2)

subsection \<open>Boundary behaviours of the whole converter\<close>

lemma example_configs_valid:
  "valid_config \<lparr>delimiter = COMMA, quote_style = QS_MINIMUM, r_replacement = None, n_replacement = None\<rparr>" "valid_config \<lparr>delimiter = COMMA, quote_style = QS_EVERYTHING, r_replacement = None, n_replacement = None\<rparr>"
  by (simp_all add: valid_config_def rule_ok_def)

lemma initial_buf0: "field_buf initial_state 0 = QUOTE"
  by (simp add: initial_state_def initial_field_buf_def)

lemmas eval_line_spec = cstr_def line_fields_def line_terminator_def split_on_no_delim is_eol_def
  field_output_def field_content_def replace_rule_def needs_quotes_def escape_quotes_no_quote
  next_stale_def initial_state_def initial_field_buf_def

text \<open>C22: a line longer than the line buffer is not truncated but split: for every
  line body \<open>b\<close> without CR, LF or NUL of between 65535 and 131069 bytes, \<open>fgets\<close>
  returns its first 65535 bytes as one line, which has no terminator, so the rest is
  converted as a continuation of the same record (\<open>fields_output\<close> with
  \<open>start_of_line\<close> false: a separator first), and only then the line feed is written.\<close>

theorem convert_from_fp_long_line:
  assumes "valid_config cfg" and "field_buf st 0 = QUOTE"
    and "CR \<notin> set b" and "LF \<notin> set b" and "NUL \<notin> set b"
    and "delimiter cfg \<noteq> CR" and "delimiter cfg \<noteq> LF"
    and "MAXLINELEN - 1 \<le> length b" and "length b \<le> 2 * MAXLINELEN - 3"
    and "pending fp = b @ [LF]" and "at_end fp = END_OF_FILE"
  shows "\<exists>st'. convert_from_fp cfg fp st = Some (Returned 0, st') \<and>
           out st' = out st @
             (case fields_output cfg (start_of_line st) (field_buf st 1)
                     (split_on (delimiter cfg) (take (MAXLINELEN - 1) b)) of
                (o1, s) \<Rightarrow> o1 @ fst (fields_output cfg False s (split_on (delimiter cfg) (drop (MAXLINELEN - 1) b))) @ [LF])"
proof -
  let ?c = "take (MAXLINELEN - 1) b" and ?r = "drop (MAXLINELEN - 1) b"
  have m: "MAXLINELEN - 1 = Suc (MAXLINELEN - 2)" by (simp add: MAXLINELEN_def)
  have chunks: "lines_read (MAXLINELEN - 2) (pending fp) END_OF_FILE = [?c, ?r @ [LF]]"
    using lines_read_long_line [of b "MAXLINELEN - 2" END_OF_FILE] assms(4,8,9,10)
    by (simp add: m) (simp add: MAXLINELEN_def)
  have nc: "CR \<notin> set ?c" "LF \<notin> set ?c" "NUL \<notin> set ?c"
    and nr: "CR \<notin> set ?r" "LF \<notin> set ?r" "NUL \<notin> set ?r"
    using assms(3-5) by (auto dest: in_set_takeD in_set_dropD)
  have p1: "line_fields (delimiter cfg) (cstr ?c) = split_on (delimiter cfg) ?c"
            "line_terminator (delimiter cfg) (cstr ?c) = []"
    using line_parts_terminated [OF nc(1,2) assms(6,7), of "[]"] cstr_id [OF nc(3)] by simp_all
  have p2: "line_fields (delimiter cfg) (cstr (?r @ [LF])) = split_on (delimiter cfg) ?r"
            "line_terminator (delimiter cfg) (cstr (?r @ [LF])) = [LF]"
    using line_parts_terminated [OF nr(1,2) assms(6,7), of "[LF]"] cstr_id [of "?r @ [LF]"] nr(3) by simp_all
  have out: "lines_output cfg (start_of_line st) (field_buf st 1) [?c, ?r @ [LF]] =
             (case fields_output cfg (start_of_line st) (field_buf st 1) (split_on (delimiter cfg) ?c) of
                (o1, s) \<Rightarrow> o1 @ fst (fields_output cfg False s (split_on (delimiter cfg) ?r)) @ [LF])"
    by (simp only: lines_output.simps p1 p2 Let_def) (simp split: prod.split)
  show ?thesis
    using driver_output_eof [OF assms(1,2) assms(11) _ out] chunks assms(11) by simp
qed

text \<open>C23: a NUL byte inside an input line ends the C string that \<open>convert_line\<close>
  sees: for every line \<open>a NUL c LF\<close> with no CR, LF or NUL in \<open>a\<close>, only \<open>a\<close> is
  converted, the bytes \<open>c\<close> and the line feed are lost, and the lines that follow
  continue the same record (\<open>lines_output\<close> with \<open>start_of_line\<close> false).\<close>

theorem convert_from_fp_embedded_nul:
  assumes "valid_config cfg" and "field_buf st 0 = QUOTE"
    and "CR \<notin> set a" and "LF \<notin> set a" and "NUL \<notin> set a" and "LF \<notin> set c"
    and "delimiter cfg \<noteq> CR" and "delimiter cfg \<noteq> LF"
    and "length (a @ NUL # c) \<le> MAXLINELEN - 2"
    and "pending fp = a @ NUL # c @ LF # rest" and "at_end fp = END_OF_FILE"
  shows "\<exists>st'. convert_from_fp cfg fp st = Some (Returned 0, st') \<and>
           out st' = out st @
             (case fields_output cfg (start_of_line st) (field_buf st 1) (split_on (delimiter cfg) a) of
                (o1, s) \<Rightarrow> o1 @ lines_output cfg False s (lines_read (MAXLINELEN - 2) rest END_OF_FILE))"
proof -
  have ln: "LF \<notin> set (a @ NUL # c)" using assms(4,6) by auto
  have chunks: "lines_read (MAXLINELEN - 2) (pending fp) END_OF_FILE =
                  (a @ NUL # c @ [LF]) # lines_read (MAXLINELEN - 2) rest END_OF_FILE"
    using lines_read_append [of "[a @ NUL # c]" "MAXLINELEN - 2" rest END_OF_FILE] ln assms(9,10) by simp
  have p: "line_fields (delimiter cfg) (cstr (a @ NUL # c @ [LF])) = split_on (delimiter cfg) a"
           "line_terminator (delimiter cfg) (cstr (a @ NUL # c @ [LF])) = []"
    using line_parts_terminated [OF assms(3,4,7,8), of "[]"] cstr_append_nul [OF assms(5)] by simp_all
  have out: "lines_output cfg (start_of_line st) (field_buf st 1) ((a @ NUL # c @ [LF]) # lines_read (MAXLINELEN - 2) rest END_OF_FILE) =
             (case fields_output cfg (start_of_line st) (field_buf st 1) (split_on (delimiter cfg) a) of
                (o1, s) \<Rightarrow> o1 @ lines_output cfg False s (lines_read (MAXLINELEN - 2) rest END_OF_FILE))"
    by (simp only: lines_output.simps p Let_def) (simp split: prod.split)
  show ?thesis
    using driver_output_eof [OF assms(1,2) assms(11) _ out] chunks assms(11) by simp
qed

text \<open>C24: CR line endings do not end lines: for every input without a line feed that
  fits the line buffer, whatever CR bytes it holds, the driver makes exactly one call
  of \<open>convert_line\<close> on the whole input and then flushes, so a file of CR-ended
  records is converted as a single line.\<close>

theorem convert_from_fp_cr_line_endings:
  assumes "LF \<notin> set xs" and "xs \<noteq> []" and "length xs \<le> MAXLINELEN - 2"
    and "pending fp = xs" and "at_end fp = END_OF_FILE"
  shows "convert_from_fp cfg fp st =
           map_option (\<lambda>(r, st1). (Returned 0, flush_output st1)) (convert_line cfg (cstr xs) st)"
  using lines_read_no_lf [OF assms(1-3)] assms(4,5)
  by (simp add: convert_from_fp_def convert_from_fp_loop_lines split: option.split)


text \<open>C32: an empty input is converted to nothing: when the stream ends at once, the
  driver returns 0 with the output unchanged and the sink flushed, whatever the
  configuration.\<close>

theorem convert_from_fp_empty_input:
  assumes "pending fp = []" and "at_end fp = END_OF_FILE"
  shows "convert_from_fp cfg fp st = Some (Returned 0, flush_output st)"
  using assms by (simp add: convert_from_fp_def convert_from_fp_loop_lines lines_read_Nil)

text \<open>C33: an empty line is one empty field: a line that is only a line feed is written
  as the empty field's encoding (two quotes under the everything policy, and under the
  border-spaces policy when the stale scratch byte is a space or tab; nothing
  otherwise) followed by the line feed, and the next line starts a new record.\<close>

theorem convert_line_empty_line:
  assumes "valid_config cfg" and "field_buf st 0 = QUOTE" and "start_of_line st"
    and "delimiter cfg \<noteq> LF"
  shows "\<exists>st'. convert_line cfg [LF] st = Some (0, st') \<and>
           out st' = out st @
             (if quote_style cfg = QS_EVERYTHING
                 \<or> (quote_style cfg = QS_BORDER_SPACES \<and> (field_buf st 1 = SPACE \<or> field_buf st 1 = TAB))
              then [QUOTE, QUOTE] else []) @ [LF] \<and>
           start_of_line st'"
proof -
  have parts: "line_fields (delimiter cfg) [LF] = [[]]" "line_terminator (delimiter cfg) [LF] = [LF]"
    using assms(4) by (simp_all add: line_fields_def line_terminator_def split_on_no_delim is_eol_def)
  show ?thesis
    using convert_line_loop_result [OF assms(1,2), of "[LF]"] assms(3) field_output_Nil [of cfg "field_buf st 1"]
    by (auto simp: convert_line_def parts split: prod.splits)
qed

text \<open>C34: an empty replacement pattern (\<open>-r ''\<close> or \<open>-n ''\<close>) stops the whole program
  from returning: \<open>convert_from_fp\<close> hands the first line it reads to \<open>convert_line\<close>,
  whose first field reaches \<open>replace_string_by_char\<close> with the empty pattern, and that
  loop never ends.  The configuration is not rejected anywhere in \<open>csv.c\<close>.\<close>

theorem convert_from_fp_empty_pattern:
  assumes "r_replacement cfg = Some [] \<or> n_replacement cfg = Some []"
    and "lines_read (MAXLINELEN - 2) (pending fp) (at_end fp) \<noteq> []"
  shows "convert_from_fp cfg fp st = None"
  using assms by (simp add: convert_from_fp_def convert_from_fp_loop_lines run_lines_empty_rule)

text \<open>C37: outside the border-space policy, the conversion of an input does not depend
  on what earlier conversions left in the static scratch buffer: from two states with
  the same \<open>start_of_line\<close>, the driver returns the same value and appends the same
  bytes.  Under \<open>QS_BORDER_SPACES\<close> it does depend on it (C12).\<close>

theorem convert_from_fp_history_independent:
  assumes "valid_config cfg" and "quote_style cfg \<noteq> QS_BORDER_SPACES"
    and "field_buf st1 0 = QUOTE" and "field_buf st2 0 = QUOTE" and "start_of_line st1 = start_of_line st2"
  shows "\<exists>r bytes st1' st2'. convert_from_fp cfg fp st1 = Some (r, st1') \<and> convert_from_fp cfg fp st2 = Some (r, st2') \<and>
           out st1' = out st1 @ bytes \<and> out st2' = out st2 @ bytes"
proof -
  let ?ls = "lines_read (MAXLINELEN - 2) (pending fp) (at_end fp)"
  obtain st1' where r1: "run_lines cfg ?ls st1 = Some st1'"
    and o1: "out st1' = out st1 @ lines_output cfg (start_of_line st1) (field_buf st1 1) ?ls"
    using run_lines_result [OF assms(1,3)] by blast
  obtain st2' where r2: "run_lines cfg ?ls st2 = Some st2'"
    and o2: "out st2' = out st2 @ lines_output cfg (start_of_line st1) (field_buf st1 1) ?ls"
    using run_lines_result [OF assms(1,4)] lines_output_stale [OF assms(2)] assms(5) by metis
  show ?thesis
    using r1 r2 o1 o2 by (simp add: convert_from_fp_def convert_from_fp_loop_lines flush_output_def)
qed

theorem convert_from_fp_empty_input_witness:
  "pending \<lparr>pending = [], at_end = END_OF_FILE, ferror_flag = False, feof_flag = False\<rparr> = [] \<and>
   at_end \<lparr>pending = [], at_end = END_OF_FILE, ferror_flag = False, feof_flag = False\<rparr> = END_OF_FILE \<and>
   convert_from_fp \<lparr>delimiter = COMMA, quote_style = QS_EVERYTHING, r_replacement = None, n_replacement = None\<rparr> \<lparr>pending = [], at_end = END_OF_FILE, ferror_flag = False, feof_flag = False\<rparr> initial_state =
     Some (Returned 0, flush_output initial_state)"
  using convert_from_fp_empty_input [of "\<lparr>pending = [], at_end = END_OF_FILE, ferror_flag = False, feof_flag = False\<rparr>" "\<lparr>delimiter = COMMA, quote_style = QS_EVERYTHING, r_replacement = None, n_replacement = None\<rparr>" initial_state]
  by simp

theorem convert_line_empty_line_witness:
  "valid_config \<lparr>delimiter = COMMA, quote_style = QS_EVERYTHING, r_replacement = None, n_replacement = None\<rparr> \<and> field_buf initial_state 0 = QUOTE \<and> start_of_line initial_state \<and>
   delimiter \<lparr>delimiter = COMMA, quote_style = QS_EVERYTHING, r_replacement = None, n_replacement = None\<rparr> \<noteq> LF \<and>
   (\<exists>st'. convert_line \<lparr>delimiter = COMMA, quote_style = QS_EVERYTHING, r_replacement = None, n_replacement = None\<rparr> [LF] initial_state = Some (0, st') \<and> out st' = [QUOTE, QUOTE, LF] \<and> start_of_line st')"
  using convert_line_empty_line [of "\<lparr>delimiter = COMMA, quote_style = QS_EVERYTHING, r_replacement = None, n_replacement = None\<rparr>" initial_state]
  by (simp add: example_configs_valid initial_buf0 initial_state_def initial_field_buf_def)

theorem convert_from_fp_empty_pattern_witness:
  "(r_replacement \<lparr>delimiter = COMMA, quote_style = QS_MINIMUM, r_replacement = Some [], n_replacement = None\<rparr> = Some [] \<or>
    n_replacement \<lparr>delimiter = COMMA, quote_style = QS_MINIMUM, r_replacement = Some [], n_replacement = None\<rparr> = Some []) \<and>
   lines_read (MAXLINELEN - 2) [CHR ''a'', LF] END_OF_FILE \<noteq> [] \<and>
   convert_from_fp \<lparr>delimiter = COMMA, quote_style = QS_MINIMUM, r_replacement = Some [], n_replacement = None\<rparr>
     \<lparr>pending = [CHR ''a'', LF], at_end = END_OF_FILE, ferror_flag = False, feof_flag = False\<rparr> initial_state = None"
proof -
  have "lines_read (MAXLINELEN - 2) [CHR ''a'', LF] END_OF_FILE = [[CHR ''a'', LF]]"
    using lines_read_single [of "[CHR ''a'']" "MAXLINELEN - 2" END_OF_FILE] by (simp add: MAXLINELEN_def)
  then show ?thesis
    using convert_from_fp_empty_pattern [of "\<lparr>delimiter = COMMA, quote_style = QS_MINIMUM, r_replacement = Some [], n_replacement = None\<rparr>"
      "\<lparr>pending = [CHR ''a'', LF], at_end = END_OF_FILE, ferror_flag = False, feof_flag = False\<rparr>" initial_state]
    by simp
qed

theorem convert_from_fp_history_independent_witness:
  "valid_config \<lparr>delimiter = COMMA, quote_style = QS_ALL_SPACES, r_replacement = None, n_replacement = None\<rparr> \<and>
   quote_style \<lparr>delimiter = COMMA, quote_style = QS_ALL_SPACES, r_replacement = None, n_replacement = None\<rparr> \<noteq> QS_BORDER_SPACES \<and>
   field_buf initial_state 0 = QUOTE \<and> field_buf (initial_state\<lparr>field_buf := (field_buf initial_state)(1 := SPACE)\<rparr>) 0 = QUOTE \<and>
   start_of_line initial_state = start_of_line (initial_state\<lparr>field_buf := (field_buf initial_state)(1 := SPACE)\<rparr>) \<and>
   (\<exists>r bytes st1' st2'.
      convert_from_fp \<lparr>delimiter = COMMA, quote_style = QS_ALL_SPACES, r_replacement = None, n_replacement = None\<rparr>
        \<lparr>pending = [CHR ''a'', COMMA, LF], at_end = END_OF_FILE, ferror_flag = False, feof_flag = False\<rparr> initial_state = Some (r, st1') \<and>
      convert_from_fp \<lparr>delimiter = COMMA, quote_style = QS_ALL_SPACES, r_replacement = None, n_replacement = None\<rparr>
        \<lparr>pending = [CHR ''a'', COMMA, LF], at_end = END_OF_FILE, ferror_flag = False, feof_flag = False\<rparr>
        (initial_state\<lparr>field_buf := (field_buf initial_state)(1 := SPACE)\<rparr>) = Some (r, st2') \<and>
      out st1' = out initial_state @ bytes \<and>
      out st2' = out (initial_state\<lparr>field_buf := (field_buf initial_state)(1 := SPACE)\<rparr>) @ bytes)"
  using convert_from_fp_history_independent
      [of "\<lparr>delimiter = COMMA, quote_style = QS_ALL_SPACES, r_replacement = None, n_replacement = None\<rparr>" initial_state
          "initial_state\<lparr>field_buf := (field_buf initial_state)(1 := SPACE)\<rparr>"
          "\<lparr>pending = [CHR ''a'', COMMA, LF], at_end = END_OF_FILE, ferror_flag = False, feof_flag = False\<rparr>"]
  by (simp add: valid_config_def rule_ok_def initial_buf0)

theorem convert_from_fp_long_line_witness:
  "valid_config \<lparr>delimiter = COMMA, quote_style = QS_MINIMUM, r_replacement = None, n_replacement = None\<rparr> \<and>
   field_buf initial_state 0 = QUOTE \<and>
   CR \<notin> set (replicate 65535 (CHR ''a'') @ ''b'') \<and> LF \<notin> set (replicate 65535 (CHR ''a'') @ ''b'') \<and>
   NUL \<notin> set (replicate 65535 (CHR ''a'') @ ''b'') \<and>
   delimiter \<lparr>delimiter = COMMA, quote_style = QS_MINIMUM, r_replacement = None, n_replacement = None\<rparr> \<noteq> CR \<and>
   delimiter \<lparr>delimiter = COMMA, quote_style = QS_MINIMUM, r_replacement = None, n_replacement = None\<rparr> \<noteq> LF \<and>
   MAXLINELEN - 1 \<le> length (replicate 65535 (CHR ''a'') @ ''b'') \<and>
   length (replicate 65535 (CHR ''a'') @ ''b'') \<le> 2 * MAXLINELEN - 3 \<and>
   (\<exists>st'. convert_from_fp \<lparr>delimiter = COMMA, quote_style = QS_MINIMUM, r_replacement = None, n_replacement = None\<rparr>
            \<lparr>pending = replicate 65535 (CHR ''a'') @ ''b'' @ [LF], at_end = END_OF_FILE, ferror_flag = False, feof_flag = False\<rparr>
            initial_state = Some (Returned 0, st') \<and>
          out st' = replicate 65535 (CHR ''a'') @ '',b'' @ [LF])"
proof -
  note v = example_configs_valid(1) and b0 = initial_buf0
  have split: "take (MAXLINELEN - 1) (replicate 65535 (CHR ''a'') @ ''b'') = replicate 65535 (CHR ''a'')"
              "drop (MAXLINELEN - 1) (replicate 65535 (CHR ''a'') @ ''b'') = ''b''"
    by (simp_all add: MAXLINELEN_def)
  have bytes: "(case fields_output \<lparr>delimiter = COMMA, quote_style = QS_MINIMUM, r_replacement = None, n_replacement = None\<rparr>
                      (start_of_line initial_state) (field_buf initial_state 1) (split_on COMMA (replicate 65535 (CHR ''a''))) of
                 (o1, s) \<Rightarrow> o1 @ fst (fields_output \<lparr>delimiter = COMMA, quote_style = QS_MINIMUM, r_replacement = None, n_replacement = None\<rparr>
                                      False s (split_on COMMA ''b'')) @ [LF]) =
               replicate 65535 (CHR ''a'') @ '',b'' @ [LF]"
    by (simp add: eval_line_spec escape_quotes_def)
  show ?thesis
    using convert_from_fp_long_line [OF v b0, of "replicate 65535 (CHR ''a'') @ ''b''"
        "\<lparr>pending = replicate 65535 (CHR ''a'') @ ''b'' @ [LF], at_end = END_OF_FILE, ferror_flag = False, feof_flag = False\<rparr>"]
      v b0 split bytes
    by (simp add: MAXLINELEN_def initial_state_def)
qed

theorem convert_from_fp_embedded_nul_witness:
  "valid_config \<lparr>delimiter = COMMA, quote_style = QS_MINIMUM, r_replacement = None, n_replacement = None\<rparr> \<and>
   field_buf initial_state 0 = QUOTE \<and> CR \<notin> set ''a'' \<and> LF \<notin> set ''a'' \<and> NUL \<notin> set ''a'' \<and> LF \<notin> set ''b'' \<and>
   delimiter \<lparr>delimiter = COMMA, quote_style = QS_MINIMUM, r_replacement = None, n_replacement = None\<rparr> \<noteq> CR \<and>
   delimiter \<lparr>delimiter = COMMA, quote_style = QS_MINIMUM, r_replacement = None, n_replacement = None\<rparr> \<noteq> LF \<and>
   length (''a'' @ NUL # ''b'') \<le> MAXLINELEN - 2 \<and>
   (\<exists>st'. convert_from_fp \<lparr>delimiter = COMMA, quote_style = QS_MINIMUM, r_replacement = None, n_replacement = None\<rparr>
            \<lparr>pending = ''a'' @ NUL # ''b'' @ LF # ''c'' @ [LF], at_end = END_OF_FILE, ferror_flag = False, feof_flag = False\<rparr>
            initial_state = Some (Returned 0, st') \<and>
          out st' = ''a,c'' @ [LF])"
proof -
  note v = example_configs_valid(1) and b0 = initial_buf0
  have rest: "lines_read (MAXLINELEN - 2) (''c'' @ [LF]) END_OF_FILE = [''c'' @ [LF]]"
    using lines_read_single [of "''c''" "MAXLINELEN - 2" END_OF_FILE] by (simp add: MAXLINELEN_def)
  have bytes: "(case fields_output \<lparr>delimiter = COMMA, quote_style = QS_MINIMUM, r_replacement = None, n_replacement = None\<rparr>
                      (start_of_line initial_state) (field_buf initial_state 1) (split_on COMMA ''a'') of
                 (o1, s) \<Rightarrow> o1 @ lines_output \<lparr>delimiter = COMMA, quote_style = QS_MINIMUM, r_replacement = None, n_replacement = None\<rparr>
                                   False s [''c'' @ [LF]]) = ''a,c'' @ [LF]"
    by (simp add: eval_line_spec escape_quotes_def)
  show ?thesis
    using convert_from_fp_embedded_nul [OF v b0, of "''a''" "''b''"
        "\<lparr>pending = ''a'' @ NUL # ''b'' @ LF # ''c'' @ [LF], at_end = END_OF_FILE, ferror_flag = False, feof_flag = False\<rparr>" "''c'' @ [LF]"]
      v b0 rest bytes
    by (simp add: MAXLINELEN_def initial_state_def)
qed

theorem convert_from_fp_cr_line_endings_witness:
  "LF \<notin> set (''a,b'' @ [CR] @ ''c,d'' @ [CR]) \<and> ''a,b'' @ [CR] @ ''c,d'' @ [CR] \<noteq> [] \<and>
   length (''a,b'' @ [CR] @ ''c,d'' @ [CR]) \<le> MAXLINELEN - 2 \<and>
   convert_from_fp \<lparr>delimiter = COMMA, quote_style = QS_EVERYTHING, r_replacement = None, n_replacement = None\<rparr>
     \<lparr>pending = ''a,b'' @ [CR] @ ''c,d'' @ [CR], at_end = END_OF_FILE, ferror_flag = False, feof_flag = False\<rparr> initial_state =
   map_option (\<lambda>(r, st1). (Returned 0, flush_output st1))
     (convert_line \<lparr>delimiter = COMMA, quote_style = QS_EVERYTHING, r_replacement = None, n_replacement = None\<rparr>
        (''a,b'' @ [CR] @ ''c,d'' @ [CR]) initial_state)"
  using convert_from_fp_cr_line_endings [of "''a,b'' @ [CR] @ ''c,d'' @ [CR]"
      "\<lparr>pending = ''a,b'' @ [CR] @ ''c,d'' @ [CR], at_end = END_OF_FILE, ferror_flag = False, feof_flag = False\<rparr>"]
  by (simp add: MAXLINELEN_def cstr_id)

end
